theory Spec2Isabelle
  imports Complex_Main "HOL-Library.AList"
begin

section \<open>Python values\<close>

text \<open>
  The optimisation loop of \<^verbatim>\<open>trnpy/misc.py\<close> handles dynamically typed data: the
  content of the YAML control file, the points of the search space and the keyword
  arguments handed to the evaluation function. They are modelled by one datatype of
  Python values. Dictionaries are association lists in insertion order with string keys.
\<close>

datatype pyval =
    PNone
  | PBool bool
  | PInt int
  | PFloat real
  | PStr string
  | PList "pyval list"
  | PDict "(string \<times> pyval) list"

datatype error =
    ValueError
  | TypeError
  | AttributeError
  | IndexError
  | UnboundLocalError
  | OtherError string

type_synonym point = "pyval list"

text \<open>Truth value of a Python object, as tested by \<^verbatim>\<open>if user_ask:\<close> and \<^verbatim>\<open>if kill:\<close>.\<close>

fun truthy :: "pyval \<Rightarrow> bool" where
  "truthy PNone = False"
| "truthy (PBool b) = b"
| "truthy (PInt i) = (i \<noteq> 0)"
| "truthy (PFloat r) = (r \<noteq> 0)"
| "truthy (PStr s) = (s \<noteq> [])"
| "truthy (PList xs) = (xs \<noteq> [])"
| "truthy (PDict d) = (d \<noteq> [])"

text \<open>\<^verbatim>\<open>len(v)\<close>: defined on strings, lists and dictionaries, a TypeError otherwise.\<close>

fun py_len :: "pyval \<Rightarrow> error + nat" where
  "py_len (PStr s) = Inr (length s)"
| "py_len (PList xs) = Inr (length xs)"
| "py_len (PDict d) = Inr (length d)"
| "py_len _ = Inl TypeError"

text \<open>
  \<^verbatim>\<open>d.setdefault(k, v)\<close> returns the value stored under \<open>k\<close>, storing \<open>v\<close> first
  when the key is missing; \<^verbatim>\<open>d[k] = v\<close> is \<^const>\<open>AList.update\<close>.
\<close>

definition setdefault ::
  "(string \<times> pyval) list \<Rightarrow> string \<Rightarrow> pyval \<Rightarrow> pyval \<times> (string \<times> pyval) list" where
  "setdefault d k v = (case map_of d k of Some x \<Rightarrow> (x, d) | None \<Rightarrow> (v, d @ [(k, v)]))"

section \<open>Expansion of user ranges: \<^verbatim>\<open>convert_user_next_ranges\<close>\<close>

text \<open>
  Python's \<^verbatim>\<open>range(start, stop, step)\<close>: a zero step raises ValueError; the length is
  the one CPython computes, the elements are \<open>start + i * step\<close>.
\<close>

definition range_len :: "int \<Rightarrow> int \<Rightarrow> int \<Rightarrow> nat" where
  "range_len start stop step =
     (if 0 < step then (if start < stop then nat ((stop - start - 1) div step + 1) else 0)
      else (if stop < start then nat ((start - stop - 1) div (- step) + 1) else 0))"

definition py_range :: "int \<Rightarrow> int \<Rightarrow> int \<Rightarrow> error + int list" where
  "py_range start stop step =
     (if step = 0 then Inl ValueError
      else Inr (map (\<lambda>i. start + int i * step) [0..<range_len start stop step]))"

text \<open>\<^verbatim>\<open>range(*items)\<close>: one, two or three integers; any other number is a TypeError.\<close>

fun range_star :: "int list \<Rightarrow> error + int list" where
  "range_star [stop] = py_range 0 stop 1"
| "range_star [start, stop] = py_range start stop 1"
| "range_star [start, stop, step] = py_range start stop step"
| "range_star _ = Inl TypeError"

text \<open>The comprehension \<^verbatim>\<open>[range(*items) for items in args_list]\<close>, stopping at the first
  exception.\<close>

fun ranges_of :: "int list list \<Rightarrow> error + int list list" where
  "ranges_of [] = Inr []"
| "ranges_of (items # rest) =
     (case range_star items of
        Inl ex \<Rightarrow> Inl ex
      | Inr r \<Rightarrow> (case ranges_of rest of Inl ex \<Rightarrow> Inl ex | Inr rs \<Rightarrow> Inr (r # rs)))"

text \<open>
  \<^verbatim>\<open>itertools.product(*pools)\<close>, after the equivalent code of the Python documentation:
  \<^verbatim>\<open>
  result = [[]]
  for pool in pools:
      result = [x+[y] for x in result for y in pool]
  \<close>
\<close>

definition product_step :: "'a list \<Rightarrow> 'a list list \<Rightarrow> 'a list list" where
  "product_step pool result = concat (map (\<lambda>x. map (\<lambda>y. x @ [y]) pool) result)"

definition itertools_product :: "'a list list \<Rightarrow> 'a list list" where
  "itertools_product pools = fold product_step pools [[]]"

text \<open>
  \<^verbatim>\<open>
  def convert_user_next_ranges(args_list):
      if len(args_list) > 0:
          ranges = [range(*items) for items in args_list]
          combis = list(itertools.product(*ranges))
          return combis
      else:
          return []
  \<close>
  on a list of lists of integers.
\<close>

definition convert_user_next_ranges :: "int list list \<Rightarrow> error + int list list" where
  "convert_user_next_ranges args_list =
     (if 0 < length args_list then
        (case ranges_of args_list of
           Inl ex \<Rightarrow> Inl ex
         | Inr ranges \<Rightarrow> Inr (itertools_product ranges))
      else Inr [])"

text \<open>
  The same function on what the YAML file can hold. \<^verbatim>\<open>len\<close> fails on a scalar; an
  empty string or dictionary gives the empty list like the empty list does; iterating a
  non-empty string or dictionary gives strings, on which \<^verbatim>\<open>range\<close> raises TypeError; an
  item must be a list of integers (a Python bool is an integer).
\<close>

fun as_int :: "pyval \<Rightarrow> int option" where
  "as_int (PInt i) = Some i"
| "as_int (PBool b) = Some (if b then 1 else 0)"
| "as_int _ = None"

fun as_ints :: "pyval list \<Rightarrow> int list option" where
  "as_ints [] = Some []"
| "as_ints (v # vs) =
     (case as_int v of
        None \<Rightarrow> None
      | Some i \<Rightarrow> (case as_ints vs of None \<Rightarrow> None | Some is \<Rightarrow> Some (i # is)))"

fun range_star_dyn :: "pyval \<Rightarrow> error + int list" where
  "range_star_dyn (PList xs) =
     (case as_ints xs of None \<Rightarrow> Inl TypeError | Some items \<Rightarrow> range_star items)"
| "range_star_dyn _ = Inl TypeError"

fun ranges_of_dyn :: "pyval list \<Rightarrow> error + int list list" where
  "ranges_of_dyn [] = Inr []"
| "ranges_of_dyn (items # rest) =
     (case range_star_dyn items of
        Inl ex \<Rightarrow> Inl ex
      | Inr r \<Rightarrow> (case ranges_of_dyn rest of Inl ex \<Rightarrow> Inl ex | Inr rs \<Rightarrow> Inr (r # rs)))"

definition convert_user_next_ranges_dyn :: "pyval \<Rightarrow> error + point list" where
  "convert_user_next_ranges_dyn args_list =
     (case py_len args_list of
        Inl ex \<Rightarrow> Inl ex
      | Inr n \<Rightarrow>
          if 0 < n then
            (case args_list of
               PList items \<Rightarrow>
                 (case ranges_of_dyn items of
                    Inl ex \<Rightarrow> Inl ex
                  | Inr ranges \<Rightarrow> Inr (map (map PInt) (itertools_product ranges)))
             | _ \<Rightarrow> Inl TypeError)
          else Inr [])"

text \<open>
  The Cartesian product as the specification words it: row-major, the leftmost
  dimension varying slowest. The first range is the outer loop.
\<close>

fun cartesian :: "'a list list \<Rightarrow> 'a list list" where
  "cartesian [] = [[]]"
| "cartesian (r # rs) = concat (map (\<lambda>x. map (\<lambda>t. x # t) (cartesian rs)) r)"

text \<open>The integer range of a triple with a non-zero step.\<close>

definition int_range :: "int \<times> int \<times> int \<Rightarrow> int list" where
  "int_range t =
     (case t of (start, stop, step) \<Rightarrow>
        map (\<lambda>i. start + int i * step) [0..<range_len start stop step])"

definition triple_items :: "int \<times> int \<times> int \<Rightarrow> int list" where
  "triple_items t = (case t of (start, stop, step) \<Rightarrow> [start, stop, step])"

section \<open>The optimisation loop: \<^verbatim>\<open>skopt_optimize\<close>\<close>

subsection \<open>Data\<close>

text \<open>The parameter table handed to the evaluation function (a pandas DataFrame).\<close>

record param_table =
  columns :: "string list"
  rows :: "point list"

text \<open>
  The \<^verbatim>\<open>OptimizeResult\<close> returned by \<^verbatim>\<open>tell\<close>, with the attributes the loop reads
  (\<^verbatim>\<open>fun\<close>, \<^verbatim>\<open>x\<close>, \<^verbatim>\<open>space.n_dims\<close>) and the two it sets (\<^verbatim>\<open>nit\<close>, \<^verbatim>\<open>success\<close>).
\<close>

record optimize_result =
  res_fun :: real
  res_x :: point
  res_n_dims :: nat
  res_nit :: "int option"
  res_success :: "bool option"

text \<open>
  Calls that leave the function, in the order they are made. An event is recorded when
  the call is made, whether it returns or raises.
\<close>

datatype event =
    EvAsk pyval
  | EvFromRecords "point list"
  | EvEval param_table pyval
  | EvTell "point list" "real list"
  | EvDump optimize_result
  | EvPlotEvaluations
  | EvPlotObjective
  | EvSavefig string
  | EvRead "pyval option"
  | EvWrite pyval

text \<open>
  What the function does not define itself is a parameter: the optimizer of
  scikit-optimize (an abstract engine state \<open>'e\<close>, which holds the engine's random
  generator, with its constructor, \<^verbatim>\<open>ask\<close>, \<^verbatim>\<open>tell\<close>, its history \<^verbatim>\<open>Xi\<close> and its
  dimension names), pandas' \<^verbatim>\<open>from_records\<close>, the caller's evaluation function, the
  plotting functions, the number of cores of the machine, and the control file as the
  outside world treats it. \<open>operator env k\<close> maps the file left by the loop to the file
  found when round counter \<open>k\<close> reads it (\<open>None\<close> is a file that is missing or cannot be
  parsed). \<open>cfg_write env k d\<close> is the outcome of
  \<^verbatim>\<open>yaml.dump(opt_dict, open(opt_cfg, 'w'))\<close> in that round: \<open>None\<close> when the file is
  written, the exception when the file cannot be opened for writing (it is then left as
  it was found). Writing the checkpoint succeeds.
\<close>

record 'e env =
  cpu_count :: int
  Optimizer :: "pyval list \<Rightarrow> pyval \<Rightarrow> (string \<times> pyval) list \<Rightarrow> 'e"
  set_name :: "nat \<Rightarrow> string \<Rightarrow> 'e \<Rightarrow> 'e"
  load :: "string \<Rightarrow> error + (optimize_result \<times> 'e)"
  Xi :: "'e \<Rightarrow> point list"
  dimension_names :: "'e \<Rightarrow> string list"
  ask :: "'e \<Rightarrow> pyval \<Rightarrow> error + (point list \<times> 'e)"
  tell :: "'e \<Rightarrow> point list \<Rightarrow> real list \<Rightarrow> error + ('e \<times> optimize_result)"
  from_records :: "point list \<Rightarrow> string list \<Rightarrow> error + param_table"
  eval_func :: "param_table \<Rightarrow> (string \<times> pyval) list \<Rightarrow> error + real list"
  plot_evaluations :: "optimize_result \<Rightarrow> error option"
  plot_objective :: "optimize_result \<Rightarrow> error option"
  abspath :: "string \<Rightarrow> string"
  operator :: "int \<Rightarrow> pyval option \<Rightarrow> pyval option"
  cfg_write :: "int \<Rightarrow> pyval \<Rightarrow> error option"

text \<open>The arguments of \<^verbatim>\<open>skopt_optimize\<close> that the loop uses.\<close>

record args =
  opt_dimensions :: "(string \<times> pyval) list"
  n_calls :: int
  arg_n_cores :: int
  tol :: real
  random_state :: pyval
  arg_plots_dir :: "string option"
  optimizer_pickle :: "string option"
  skopt_kwargs :: "(string \<times> pyval) list"

text \<open>
  The local variables of the function (\<open>round_no\<close> is \<^verbatim>\<open>round_\<close>), followed by what it
  leaves outside: the control file \<^verbatim>\<open>opt_cfg\<close>, the checkpoint \<^verbatim>\<open>optimizer.pkl\<close> and the
  calls made so far.
\<close>

record 'e state =
  sk_optimizer :: 'e
  round_no :: int
  count :: int
  user_next_x :: "point list"
  user_ask :: pyval
  eval_func_kwargs :: pyval
  n_cores :: pyval
  plots_dir :: "string option"
  result :: "optimize_result option"
  cfg_file :: "pyval option"
  pkl_file :: "optimize_result option"
  trace :: "event list"

datatype stop = CONVERGED | KILLED

datatype 'e outcome =
    Continue "'e state"
  | Break stop "'e state"
  | Raise error "'e state"

fun state_of :: "'e outcome \<Rightarrow> 'e state" where
  "state_of (Continue s) = s"
| "state_of (Break why s) = s"
| "state_of (Raise ex s) = s"

datatype status = RUNNING | EXHAUSTED | BROKE stop | RAISED error

subsection \<open>One round\<close>

text \<open>
  \<^verbatim>\<open>
  if user_ask and len(user_next_x) > 0:
      next_x = user_next_x
  else:
      try:
          next_x = sk_optimizer.ask(n_points=n_cores)
      except ValueError as ex:
          logger.exception(ex)
          raise
  \<close>
  Any exception of \<^verbatim>\<open>ask\<close> leaves the function: a ValueError is logged and raised
  again, another one is not caught.
\<close>

definition propose :: "'e env \<Rightarrow> 'e state \<Rightarrow> (error \<times> 'e state) + (point list \<times> 'e state)" where
  "propose env s =
     (if truthy (user_ask s) \<and> 0 < length (user_next_x s) then Inr (user_next_x s, s)
      else
        (let s1 = s\<lparr>trace := trace s @ [EvAsk (n_cores s)]\<rparr> in
         case ask env (sk_optimizer s) (n_cores s) of
           Inl ex \<Rightarrow> Inl (ex, s1)
         | Inr (next_x, e') \<Rightarrow> Inr (next_x, s1\<lparr>sk_optimizer := e'\<rparr>)))"

text \<open>\<^verbatim>\<open>eval_func(param_table, **eval_func_kwargs)\<close>: unpacking needs a mapping.\<close>

definition call_eval_func :: "'e env \<Rightarrow> param_table \<Rightarrow> pyval \<Rightarrow> error + real list" where
  "call_eval_func env param_table kw =
     (case kw of PDict d \<Rightarrow> eval_func env param_table d | _ \<Rightarrow> Inl TypeError)"

text \<open>
  \<^verbatim>\<open>
  if plots_dir is not None:
      skopt.utils.dump(result, os.path.join(plots_dir, 'optimizer.pkl'), store_objective=True)
  \<close>
\<close>

definition save_checkpoint :: "optimize_result \<Rightarrow> 'e state \<Rightarrow> 'e state" where
  "save_checkpoint r s =
     (case plots_dir s of
        None \<Rightarrow> s
      | Some d \<Rightarrow> s\<lparr>pkl_file := Some r, trace := trace s @ [EvDump r]\<rparr>)"

text \<open>
  The plots, made when the space has more than one dimension.
  \<^verbatim>\<open>os.path.abspath(None)\<close> raises TypeError; an exception of \<^verbatim>\<open>plot_evaluations\<close> is
  not caught; of \<^verbatim>\<open>plot_objective\<close> only IndexError is.
\<close>

definition save_plots :: "'e env \<Rightarrow> optimize_result \<Rightarrow> 'e state \<Rightarrow> (error \<times> 'e state) + 'e state" where
  "save_plots env r s =
     (if 1 < res_n_dims r then
        (case plots_dir s of
           None \<Rightarrow> Inl (TypeError, s)
         | Some d \<Rightarrow>
             (let s1 = s\<lparr>plots_dir := Some (abspath env d),
                         trace := trace s @ [EvPlotEvaluations]\<rparr> in
              case plot_evaluations env r of
                Some ex \<Rightarrow> Inl (ex, s1)
              | None \<Rightarrow>
                  (let s2 = s1\<lparr>trace := trace s1 @
                              [EvSavefig ''skopt_evaluations.png'', EvPlotObjective]\<rparr> in
                   case plot_objective env r of
                     None \<Rightarrow> Inr (s2\<lparr>trace := trace s2 @ [EvSavefig ''skopt_objective.png'']\<rparr>)
                   | Some ex \<Rightarrow> if ex = IndexError then Inr s2 else Inl (ex, s2))))
      else Inr s)"

text \<open>
  The statements of the \<^verbatim>\<open>try\<close> block that work on the dictionary read from the control
  file, from \<^verbatim>\<open>n_cores = opt_dict.setdefault('n_cores', n_cores)\<close> to
  \<^verbatim>\<open>opt_dict['kill'] = False\<close>. The result holds the new \<^verbatim>\<open>n_cores\<close>, \<^verbatim>\<open>user_ask\<close>,
  \<^verbatim>\<open>user_next_x\<close>, \<^verbatim>\<open>eval_func_kwargs\<close>, then \<^verbatim>\<open>kill\<close> and the dictionary to write.
  An exception of \<^verbatim>\<open>convert_user_next_ranges\<close> is logged and \<^verbatim>\<open>user_next_x\<close> keeps its
  value.
\<close>

definition apply_opt_dict ::
  "pyval \<Rightarrow> point list \<Rightarrow> (string \<times> pyval) list \<Rightarrow>
   pyval \<times> pyval \<times> point list \<times> pyval \<times> pyval \<times> (string \<times> pyval) list" where
  "apply_opt_dict n_cores0 user_next_x0 opt_dict =
     (let (n_cores1, d1) = setdefault opt_dict ''n_cores'' n_cores0;
          (user_ask1, d2) = setdefault d1 ''user_ask'' (PBool False);
          (args_list, d3) = setdefault d2 ''user_range_prod'' (PList []);
          user_next_x1 =
            (case convert_user_next_ranges_dyn args_list of
               Inl ex \<Rightarrow> user_next_x0
             | Inr combis \<Rightarrow> combis);
          (eval_func_kwargs1, d4) =
            (if truthy user_ask1 then setdefault d3 ''eval_func_kwargs'' (PDict [])
             else (PDict [], d3));
          (kill, d5) = setdefault d4 ''kill'' (PBool False);
          d6 = AList.update ''user_ask'' (PBool False) d5;
          d7 = AList.update ''kill'' (PBool False) d6
      in (n_cores1, user_ask1, user_next_x1, eval_func_kwargs1, kill, d7))"

text \<open>
  The \<^verbatim>\<open>try\<close> block around the control file. A file that cannot be read, or whose
  content is not a dictionary (\<^verbatim>\<open>setdefault\<close> raises AttributeError), leaves everything
  as it is: \<^verbatim>\<open>except Exception: pass\<close>. The variables are assigned before the file is
  written, and \<^verbatim>\<open>if kill: break\<close> comes after the write inside the same \<^verbatim>\<open>try\<close>: when
  the write raises, the variables keep their new values, the file is not rewritten and
  \<^verbatim>\<open>kill\<close> is not looked at.
\<close>

definition refresh_control :: "'e env \<Rightarrow> 'e state \<Rightarrow> 'e outcome" where
  "refresh_control env s =
     (let on_disk = operator env (round_no s) (cfg_file s);
          s0 = s\<lparr>cfg_file := on_disk, trace := trace s @ [EvRead on_disk]\<rparr>
      in case on_disk of
           Some (PDict opt_dict) \<Rightarrow>
             (case apply_opt_dict (n_cores s0) (user_next_x s0) opt_dict of
                (n_cores1, user_ask1, user_next_x1, eval_func_kwargs1, kill, d7) \<Rightarrow>
                  (let s1 = s0\<lparr>n_cores := n_cores1, user_ask := user_ask1,
                              user_next_x := user_next_x1,
                              eval_func_kwargs := eval_func_kwargs1,
                              trace := trace s0 @ [EvWrite (PDict d7)]\<rparr>
                   in case cfg_write env (round_no s) (PDict d7) of
                        Some ex \<Rightarrow> Continue s1
                      | None \<Rightarrow>
                          (let s2 = s1\<lparr>cfg_file := Some (PDict d7)\<rparr>
                           in if truthy kill then Break KILLED s2 else Continue s2)))
         | _ \<Rightarrow> Continue s0)"

text \<open>What follows the convergence test in a round that has not converged.\<close>

definition after_tell :: "'e env \<Rightarrow> optimize_result \<Rightarrow> 'e state \<Rightarrow> 'e outcome" where
  "after_tell env r s =
     (case save_plots env r (save_checkpoint r s) of
        Inl (ex, s1) \<Rightarrow> Raise ex s1
      | Inr s1 \<Rightarrow> refresh_control env s1)"

text \<open>
  The body of \<^verbatim>\<open>while count < n_calls\<close>. A failure of \<^verbatim>\<open>from_records\<close> is logged and the
  loop goes on (\<^verbatim>\<open>continue\<close>); exceptions of the evaluation function and of \<^verbatim>\<open>tell\<close>
  are not caught.
\<close>

definition round_body :: "'e env \<Rightarrow> real \<Rightarrow> 'e state \<Rightarrow> 'e outcome" where
  "round_body env tol0 s =
     (case propose env s of
        Inl (ex, s1) \<Rightarrow> Raise ex s1
      | Inr (next_x, s1) \<Rightarrow>
          (let s2 = s1\<lparr>trace := trace s1 @ [EvFromRecords next_x]\<rparr> in
           case from_records env next_x (dimension_names env (sk_optimizer s2)) of
             Inl ex \<Rightarrow> Continue s2
           | Inr param_table \<Rightarrow>
               (let kw = eval_func_kwargs s2;
                    s3 = s2\<lparr>round_no := round_no s2 + 1,
                           count := count s2 + int (length next_x),
                           trace := trace s2 @ [EvEval param_table kw]\<rparr> in
                case call_eval_func env param_table kw of
                  Inl ex \<Rightarrow> Raise ex s3
                | Inr next_y \<Rightarrow>
                    (let s4 = s3\<lparr>trace := trace s3 @ [EvTell next_x next_y]\<rparr> in
                     case tell env (sk_optimizer s4) next_x next_y of
                       Inl ex \<Rightarrow> Raise ex s4
                     | Inr (e', r0) \<Rightarrow>
                         (let r1 = r0\<lparr>res_nit := Some (count s4)\<rparr>;
                              s5 = s4\<lparr>sk_optimizer := e'\<rparr> in
                          if res_fun r1 < tol0 then
                            Break CONVERGED (s5\<lparr>result := Some (r1\<lparr>res_success := Some True\<rparr>)\<rparr>)
                          else
                            after_tell env (r1\<lparr>res_success := Some False\<rparr>)
                              (s5\<lparr>result := Some (r1\<lparr>res_success := Some False\<rparr>)\<rparr>))))))"

subsection \<open>The loop and the function\<close>

text \<open>
  The loop need not end (a round can add nothing to \<^verbatim>\<open>count\<close>), so it runs on fuel:
  \<open>(RUNNING, s)\<close> is the state reached when the fuel is used up and the loop would go on.
\<close>

fun while_loop :: "nat \<Rightarrow> 'e env \<Rightarrow> int \<Rightarrow> real \<Rightarrow> 'e state \<Rightarrow> status \<times> 'e state" where
  "while_loop 0 env n_calls0 tol0 s =
     (if count s < n_calls0 then (RUNNING, s) else (EXHAUSTED, s))"
| "while_loop (Suc fuel) env n_calls0 tol0 s =
     (if count s < n_calls0 then
        (case round_body env tol0 s of
           Continue s' \<Rightarrow> while_loop fuel env n_calls0 tol0 s'
         | Break why s' \<Rightarrow> (BROKE why, s')
         | Raise ex s' \<Rightarrow> (RAISED ex, s'))
      else (EXHAUSTED, s))"

text \<open>
  The statements before the loop: the number of cores, then a fresh optimizer with the
  dimension names stored in it, or the optimizer of a pickled result.
\<close>

definition fresh_optimizer :: "'e env \<Rightarrow> args \<Rightarrow> 'e" where
  "fresh_optimizer env a =
     fold (\<lambda>(i, name) e. set_name env i name e)
       (enumerate 0 (map fst (opt_dimensions a)))
       (Optimizer env (map snd (opt_dimensions a)) (random_state a) (skopt_kwargs a))"

definition initial_state ::
  "'e env \<Rightarrow> args \<Rightarrow> pyval option \<Rightarrow> optimize_result option \<Rightarrow> error + 'e state" where
  "initial_state env a cfg0 pkl0 =
     (let n = (if arg_n_cores a = 0 then cpu_count env - 1 else arg_n_cores a) in
      case optimizer_pickle a of
        None \<Rightarrow>
          (let e = fresh_optimizer env a in
           Inr \<lparr>sk_optimizer = e, round_no = 1, count = int (length (Xi env e)),
                user_next_x = [], user_ask = PBool False, eval_func_kwargs = PDict [],
                n_cores = PInt n, plots_dir = arg_plots_dir a, result = None,
                cfg_file = cfg0, pkl_file = pkl0, trace = []\<rparr>)
      | Some path \<Rightarrow>
          (case load env path of
             Inl ex \<Rightarrow> Inl ex
           | Inr (r, e) \<Rightarrow>
               Inr \<lparr>sk_optimizer = e, round_no = 1, count = int (length (Xi env e)),
                    user_next_x = [], user_ask = PBool False, eval_func_kwargs = PDict [],
                    n_cores = PInt n, plots_dir = arg_plots_dir a, result = Some r,
                    cfg_file = cfg0, pkl_file = pkl0, trace = []\<rparr>))"

text \<open>
  The function: \<open>None\<close> when the fuel does not suffice. After the loop \<^verbatim>\<open>result\<close> is
  read; it is unbound when a fresh run has made no round.
\<close>

definition skopt_optimize ::
  "nat \<Rightarrow> 'e env \<Rightarrow> args \<Rightarrow> pyval option \<Rightarrow> optimize_result option \<Rightarrow>
   (error + optimize_result) option" where
  "skopt_optimize fuel env a cfg0 pkl0 =
     (case initial_state env a cfg0 pkl0 of
        Inl ex \<Rightarrow> Some (Inl ex)
      | Inr s0 \<Rightarrow>
          (case while_loop fuel env (n_calls a) (tol a) s0 of
             (RUNNING, s) \<Rightarrow> None
           | (RAISED ex, s) \<Rightarrow> Some (Inl ex)
           | (st, s) \<Rightarrow>
               (case result s of
                  None \<Rightarrow> Some (Inl UnboundLocalError)
                | Some r \<Rightarrow> Some (Inr r))))"

section \<open>Notions used to state the properties\<close>

text \<open>The calls made by one round: what the round appends to the trace.\<close>

definition round_events :: "'e state \<Rightarrow> 'e outcome \<Rightarrow> event list" where
  "round_events s out = drop (length (trace s)) (trace (state_of out))"

fun is_ask :: "event \<Rightarrow> bool" where
  "is_ask (EvAsk n) = True"
| "is_ask _ = False"

fun is_from_records :: "event \<Rightarrow> bool" where
  "is_from_records (EvFromRecords xs) = True"
| "is_from_records _ = False"


fun is_dump :: "event \<Rightarrow> bool" where
  "is_dump (EvDump r) = True"
| "is_dump _ = False"

fun is_plot :: "event \<Rightarrow> bool" where
  "is_plot EvPlotEvaluations = True"
| "is_plot EvPlotObjective = True"
| "is_plot (EvSavefig f) = True"
| "is_plot _ = False"

fun is_control :: "event \<Rightarrow> bool" where
  "is_control (EvRead d) = True"
| "is_control (EvWrite d) = True"
| "is_control _ = False"


fun proposals :: "event list \<Rightarrow> point list list" where
  "proposals [] = []"
| "proposals (EvFromRecords xs # evs) = xs # proposals evs"
| "proposals (ev # evs) = proposals evs"

text \<open>The dictionary of the most recent read of the control file that gave one.\<close>

fun last_read :: "event list \<Rightarrow> (string \<times> pyval) list option" where
  "last_read [] = None"
| "last_read (ev # evs) =
     (case last_read evs of
        Some d \<Rightarrow> Some d
      | None \<Rightarrow> (case ev of EvRead (Some (PDict d)) \<Rightarrow> Some d | _ \<Rightarrow> None))"

definition get_default :: "(string \<times> pyval) list \<Rightarrow> string \<Rightarrow> pyval \<Rightarrow> pyval" where
  "get_default d k v = (case map_of d k of Some x \<Rightarrow> x | None \<Rightarrow> v)"

text \<open>
  The keyword parameters a control file asks for: those of its \<^verbatim>\<open>eval_func_kwargs\<close>
  entry when its \<^verbatim>\<open>user_ask\<close> is true, none otherwise, and none when no file has been
  read.
\<close>

definition user_ask_of :: "(string \<times> pyval) list option \<Rightarrow> pyval" where
  "user_ask_of r = (case r of None \<Rightarrow> PBool False | Some d \<Rightarrow> get_default d ''user_ask'' (PBool False))"

definition kwargs_of :: "(string \<times> pyval) list option \<Rightarrow> pyval" where
  "kwargs_of r =
     (case r of
        None \<Rightarrow> PDict []
      | Some d \<Rightarrow>
          if truthy (get_default d ''user_ask'' (PBool False))
          then get_default d ''eval_func_kwargs'' (PDict [])
          else PDict [])"

text \<open>
  A control file without operator override: no \<^verbatim>\<open>user_ask\<close>, no \<^verbatim>\<open>kill\<close>, and the
  number of cores the run already uses. A file is harmless when it is missing, not a
  dictionary, or such a dictionary. An operator never overrides when a harmless file
  left by the loop is found harmless at the next read.
\<close>

definition default_valued :: "pyval \<Rightarrow> (string \<times> pyval) list \<Rightarrow> bool" where
  "default_valued n0 d =
     (get_default d ''n_cores'' n0 = n0
      \<and> \<not> truthy (get_default d ''user_ask'' (PBool False))
      \<and> \<not> truthy (get_default d ''kill'' (PBool False)))"

fun harmless :: "pyval \<Rightarrow> pyval option \<Rightarrow> bool" where
  "harmless n0 (Some (PDict d)) = default_valued n0 d"
| "harmless n0 f = True"

definition no_override :: "'e env \<Rightarrow> pyval \<Rightarrow> bool" where
  "no_override env n0 = (\<forall>k f. harmless n0 f \<longrightarrow> harmless n0 (operator env k f))"

text \<open>
  Two runs have the same engine and the same evaluation: every function of the
  environment that the loop calls is the same, the operator, the fate of the writes, the
  constructor and the number of cores apart.
\<close>

definition same_engine :: "'e env \<Rightarrow> 'e env \<Rightarrow> bool" where
  "same_engine env1 env2 =
     (load env2 = load env1 \<and> Xi env2 = Xi env1
      \<and> dimension_names env2 = dimension_names env1
      \<and> ask env2 = ask env1 \<and> tell env2 = tell env1
      \<and> from_records env2 = from_records env1 \<and> eval_func env2 = eval_func env1
      \<and> plot_evaluations env2 = plot_evaluations env1
      \<and> plot_objective env2 = plot_objective env1 \<and> abspath env2 = abspath env1)"

text \<open>
  The two runs build the same engine: the constructor gives the same engine for the
  dimensions, the seed and the keyword arguments of the call, the names are stored the
  same way, and the number of cores is the same when \<^verbatim>\<open>n_cores == 0\<close> asks for it.
\<close>

definition same_start :: "'e env \<Rightarrow> 'e env \<Rightarrow> args \<Rightarrow> bool" where
  "same_start env1 env2 a =
     (Optimizer env2 (map snd (opt_dimensions a)) (random_state a) (skopt_kwargs a) =
        Optimizer env1 (map snd (opt_dimensions a)) (random_state a) (skopt_kwargs a)
      \<and> (\<forall>i name e. (i, name) \<in> set (enumerate 0 (map fst (opt_dimensions a))) \<longrightarrow>
            set_name env2 i name e = set_name env1 i name e)
      \<and> (arg_n_cores a = 0 \<longrightarrow> cpu_count env2 = cpu_count env1))"

fun is_eval :: "event \<Rightarrow> bool" where
  "is_eval (EvEval pt kw) = True"
| "is_eval _ = False"

text \<open>
  Every call of the evaluation function in a trace passes the keyword parameters asked
  for by the control file read last before the call (\<open>r\<close> is the dictionary of the last
  read before the trace, \<open>None\<close> when there was none).
\<close>

fun evals_follow :: "(string \<times> pyval) list option \<Rightarrow> event list \<Rightarrow> bool" where
  "evals_follow r [] = True"
| "evals_follow r (EvEval pt kw # evs) = (kw = kwargs_of r \<and> evals_follow r evs)"
| "evals_follow r (EvRead (Some (PDict d)) # evs) = evals_follow (Some d) evs"
| "evals_follow r (ev # evs) = evals_follow r evs"

text \<open>The variables \<^verbatim>\<open>user_ask\<close> and \<^verbatim>\<open>eval_func_kwargs\<close> hold what the last read gave.\<close>

definition control_inv :: "'e state \<Rightarrow> bool" where
  "control_inv s =
     (user_ask s = user_ask_of (last_read (trace s))
      \<and> eval_func_kwargs s = kwargs_of (last_read (trace s))
      \<and> evals_follow None (trace s))"

text \<open>The dictionary written back to the control file.\<close>

definition written_doc ::
  "pyval \<Rightarrow> point list \<Rightarrow> (string \<times> pyval) list \<Rightarrow> (string \<times> pyval) list" where
  "written_doc n u d = snd (snd (snd (snd (snd (apply_opt_dict n u d)))))"

text \<open>
  Two states of two runs agree on what decides the proposals: the engine, the counters,
  the plot directory, the result and the batches proposed so far, the operator having
  changed nothing.
\<close>

definition quiet_state :: "pyval \<Rightarrow> 'e state \<Rightarrow> bool" where
  "quiet_state n0 s =
     (n_cores s = n0 \<and> \<not> truthy (user_ask s) \<and> eval_func_kwargs s = PDict []
      \<and> harmless n0 (cfg_file s))"

definition same_core :: "pyval \<Rightarrow> 'e state \<Rightarrow> 'e state \<Rightarrow> bool" where
  "same_core n0 s1 s2 =
     (sk_optimizer s1 = sk_optimizer s2 \<and> round_no s1 = round_no s2 \<and> count s1 = count s2
      \<and> plots_dir s1 = plots_dir s2 \<and> result s1 = result s2
      \<and> proposals (trace s1) = proposals (trace s2)
      \<and> quiet_state n0 s1 \<and> quiet_state n0 s2)"

fun outcome_tag :: "'e outcome \<Rightarrow> status" where
  "outcome_tag (Continue s) = RUNNING"
| "outcome_tag (Break why s) = BROKE why"
| "outcome_tag (Raise ex s) = RAISED ex"

section \<open>Instances\<close>

definition demo_result :: optimize_result where
  "demo_result = \<lparr>res_fun = 1, res_x = [PInt 1, PInt 2], res_n_dims = 2,
                   res_nit = None, res_success = None\<rparr>"

text \<open>
  An engine that counts the points it was told, proposes the same two points each time
  and reports the least objective value seen in the batch; an evaluation function that
  returns \<open>1/2\<close> for every row.
\<close>

definition demo_env :: "nat env" where
  "demo_env =
     \<lparr>cpu_count = 3,
      Optimizer = (\<lambda>dims seed kw. 0),
      set_name = (\<lambda>i name e. e),
      load = (\<lambda>path. Inr (demo_result, 4)),
      Xi = (\<lambda>e. replicate e [PInt 1, PInt 2]),
      dimension_names = (\<lambda>e. [''x'', ''y'']),
      ask = (\<lambda>e n. Inr ([[PInt 1, PInt 2], [PInt 3, PInt 4]], e)),
      tell = (\<lambda>e xs ys. Inr (e + length xs, demo_result\<lparr>res_fun := foldr min ys 1\<rparr>)),
      from_records = (\<lambda>xs cols. Inr \<lparr>columns = cols, rows = xs\<rparr>),
      eval_func = (\<lambda>t kw. Inr (map (\<lambda>p. 1 / 2) (rows t))),
      plot_evaluations = (\<lambda>r. None),
      plot_objective = (\<lambda>r. Some IndexError),
      abspath = (\<lambda>d. d),
      operator = (\<lambda>k f. f),
      cfg_write = (\<lambda>k d. None)\<rparr>"

definition demo_state :: "nat state" where
  "demo_state =
     \<lparr>sk_optimizer = 0, round_no = 1, count = 0, user_next_x = [], user_ask = PBool False,
      eval_func_kwargs = PDict [], n_cores = PInt 2, plots_dir = Some ''Result'',
      result = None, cfg_file = None, pkl_file = None, trace = []\<rparr>"

definition demo_args :: args where
  "demo_args =
     \<lparr>opt_dimensions = [(''x'', PList [PInt 0, PInt 9]), (''y'', PList [PInt 0, PInt 9])],
      n_calls = 4, arg_n_cores = 2, tol = 1 / 1000, random_state = PInt 1,
      arg_plots_dir = Some ''Result'', optimizer_pickle = None, skopt_kwargs = []\<rparr>"

definition demo_points :: "point list" where
  "demo_points = [[PInt 1, PInt 2], [PInt 3, PInt 4]]"

definition demo_table :: param_table where
  "demo_table = \<lparr>columns = [''x'', ''y''], rows = demo_points\<rparr>"

text \<open>An evaluation function that returns one value whatever the number of rows.\<close>

definition mismatch_env :: "nat env" where
  "mismatch_env = demo_env\<lparr>eval_func := (\<lambda>t kw. Inr [1 / 2])\<rparr>"

text \<open>An evaluation function that returns the optimum \<open>0\<close> for every row.\<close>

definition converge_env :: "nat env" where
  "converge_env = demo_env\<lparr>eval_func := (\<lambda>t kw. Inr (map (\<lambda>p. 0) (rows t)))\<rparr>"

text \<open>An engine whose \<^verbatim>\<open>ask\<close> fails on a degenerate search space.\<close>

definition failing_ask_env :: "nat env" where
  "failing_ask_env = demo_env\<lparr>ask := (\<lambda>e n. Inl ValueError)\<rparr>"

text \<open>A control file that asks to stop, with an entry the loop does not know.\<close>

definition kill_doc :: "(string \<times> pyval) list" where
  "kill_doc = [(''kill'', PBool True), (''note'', PStr ''keep''), (''user_ask'', PBool True)]"

definition kill_state :: "nat state" where
  "kill_state = demo_state\<lparr>cfg_file := Some (PDict kill_doc)\<rparr>"

text \<open>An operator who leaves no control file.\<close>

definition absent_env :: "nat env" where
  "absent_env = demo_env\<lparr>operator := (\<lambda>k f. None)\<rparr>"

text \<open>A control file that asks for extra keyword parameters.\<close>

definition ask_doc :: "(string \<times> pyval) list" where
  "ask_doc = [(''user_ask'', PBool True), (''eval_func_kwargs'', PDict [(''mode'', PInt 1)])]"

definition ask_state :: "nat state" where
  "ask_state = demo_state\<lparr>cfg_file := Some (PDict ask_doc)\<rparr>"

text \<open>A control file that cannot be opened for writing.\<close>

definition readonly_env :: "nat env" where
  "readonly_env = demo_env\<lparr>cfg_write := (\<lambda>k d. Some (OtherError ''PermissionError''))\<rparr>"






text \<open>
  An engine built from the seed when there is one and from the entropy of the machine
  otherwise, which proposes as many points as it is asked for; no control file.
\<close>

definition seeded_env :: "nat \<Rightarrow> int \<Rightarrow> nat env" where
  "seeded_env entropy cores =
     demo_env\<lparr>cpu_count := cores,
       Optimizer := (\<lambda>dims seed kw. case seed of PInt i \<Rightarrow> nat i | _ \<Rightarrow> entropy),
       Xi := (\<lambda>e. []),
       ask := (\<lambda>e n. case n of
                 PInt k \<Rightarrow> Inr (map (\<lambda>i. [PInt (int e), PInt (int i)]) [0..<nat k], e)
               | _ \<Rightarrow> Inl TypeError),
       operator := (\<lambda>k f. None)\<rparr>"

definition unseeded_args :: args where
  "unseeded_args = demo_args\<lparr>random_state := PNone\<rparr>"

definition auto_cores_args :: args where
  "auto_cores_args = demo_args\<lparr>arg_n_cores := 0\<rparr>"

text \<open>An evaluation function whose values depend on the keyword parameters.\<close>

definition kw_env :: "nat env" where
  "kw_env =
     demo_env\<lparr>eval_func := (\<lambda>t kw. Inr (map (\<lambda>p. if kw = [] then 1 / 2 else 1 / 4) (rows t)))\<rparr>"

section \<open>Properties of the range expansion\<close>

lemma product_step_inner:
  "concat (map (\<lambda>y. map ((@) (a @ [y])) C) p) =
   map ((@) a) (concat (map (\<lambda>x. map ((#) x) C) p))"
  by (induction p) simp_all

lemma product_step_cartesian:
  "concat (map (\<lambda>a. map ((@) a) (cartesian ps)) (product_step p acc)) =
   concat (map (\<lambda>a. map ((@) a) (cartesian (p # ps))) acc)"
  by (induction acc) (simp_all add: product_step_def comp_def product_step_inner)

lemma fold_product_step:
  "fold product_step pools acc = concat (map (\<lambda>a. map ((@) a) (cartesian pools)) acc)"
proof (induction pools arbitrary: acc)
  case Nil
  show ?case by (induction acc) simp_all
next
  case (Cons p ps)
  have "fold product_step (p # ps) acc = fold product_step ps (product_step p acc)" by simp
  also have "\<dots> = concat (map (\<lambda>a. map ((@) a) (cartesian ps)) (product_step p acc))"
    by (rule Cons.IH)
  also have "\<dots> = concat (map (\<lambda>a. map ((@) a) (cartesian (p # ps))) acc)"
    by (rule product_step_cartesian)
  finally show ?case .
qed

lemma map_append_Nil: "map ((@) []) xs = xs"
  by (induction xs) simp_all

text \<open>The product computed by folding over the pools is the row-major product.\<close>

lemma itertools_product_cartesian: "itertools_product pools = cartesian pools"
  by (simp add: itertools_product_def fold_product_step map_append_Nil)

lemma ranges_of_triples:
  "\<forall>t \<in> set ts. snd (snd t) \<noteq> 0 \<Longrightarrow> ranges_of (map triple_items ts) = Inr (map int_range ts)"
  by (induction ts) (auto simp: triple_items_def int_range_def py_range_def split: prod.splits)

lemma ranges_of_zero_step:
  "(start, stop, 0) \<in> set ts \<Longrightarrow> \<exists>ex. ranges_of (map triple_items ts) = Inl ex"
  by (induction ts) (auto simp: triple_items_def py_range_def split: prod.splits sum.splits)

lemma le_div_iff_int:
  assumes "0 < (c::int)"
  shows "i \<le> q div c \<longleftrightarrow> i * c \<le> q"
proof
  assume "i \<le> q div c"
  then have "i * c \<le> (q div c) * c" using assms by (simp add: mult_right_mono)
  also have "\<dots> = q - q mod c" by (simp add: minus_mod_eq_div_mult)
  also have "\<dots> \<le> q" using assms by simp
  finally show "i * c \<le> q" .
next
  assume "i * c \<le> q"
  then have "(i * c) div c \<le> q div c" using assms by (rule zdiv_mono1)
  then show "i \<le> q div c" using assms by simp
qed

lemma range_len_pos:
  assumes "0 < step"
  shows "i < range_len start stop step \<longleftrightarrow> start + int i * step < stop"
proof (cases "start < stop")
  case False
  have "0 \<le> int i * step" using assms by simp
  with False have "\<not> start + int i * step < stop" by linarith
  with False show ?thesis using assms by (simp add: range_len_def)
next
  case True
  have nn: "0 \<le> (stop - start - 1) div step"
    using True assms by (simp add: pos_imp_zdiv_nonneg_iff)
  have "i < range_len start stop step \<longleftrightarrow> int i \<le> (stop - start - 1) div step"
    using True assms nn by (auto simp: range_len_def)
  also have "\<dots> \<longleftrightarrow> int i * step \<le> stop - start - 1"
    using assms by (rule le_div_iff_int)
  also have "\<dots> \<longleftrightarrow> start + int i * step < stop" by linarith
  finally show ?thesis .
qed

lemma range_len_neg:
  assumes "step < 0"
  shows "i < range_len start stop step \<longleftrightarrow> stop < start + int i * step"
proof (cases "stop < start")
  case False
  have "int i * step \<le> 0" using assms by (simp add: mult_nonneg_nonpos)
  with False have "\<not> stop < start + int i * step" by linarith
  with False show ?thesis using assms by (simp add: range_len_def)
next
  case True
  have nn: "0 \<le> (start - stop - 1) div (- step)"
    using True assms by (simp add: pos_imp_zdiv_nonneg_iff)
  have "i < range_len start stop step \<longleftrightarrow> int i \<le> (start - stop - 1) div (- step)"
    using True assms nn by (auto simp: range_len_def)
  also have "\<dots> \<longleftrightarrow> int i * (- step) \<le> start - stop - 1"
    using assms by (intro le_div_iff_int) simp
  also have "\<dots> \<longleftrightarrow> stop < start + int i * step" by (simp add: algebra_simps) linarith
  finally show ?thesis .
qed

text \<open>The elements of a range: the progression from \<open>start\<close> that stays before \<open>stop\<close>.\<close>

lemma set_int_range:
  "step \<noteq> 0 \<Longrightarrow>
   set (int_range (start, stop, step)) =
     {x. \<exists>i. x = start + int i * step \<and> (if 0 < step then x < stop else stop < x)}"
  by (auto simp: int_range_def range_len_pos range_len_neg image_iff)

lemma as_ints_PInt: "as_ints (map PInt xs) = Some xs"
  by (induction xs) simp_all

lemma ranges_of_dyn_ints:
  "ranges_of_dyn (map (\<lambda>items. PList (map PInt items)) args_list) = ranges_of args_list"
  by (induction args_list) (auto simp: as_ints_PInt split: sum.splits)

text \<open>On lists of lists of integers the two readings of the function agree.\<close>

lemma convert_user_next_ranges_dyn_ints:
  "convert_user_next_ranges_dyn (PList (map (\<lambda>items. PList (map PInt items)) args_list)) =
     (case convert_user_next_ranges args_list of
        Inl ex \<Rightarrow> Inl ex
      | Inr combis \<Rightarrow> Inr (map (map PInt) combis))"
proof (cases "args_list = []")
  case True
  then show ?thesis
    by (simp add: convert_user_next_ranges_dyn_def convert_user_next_ranges_def)
next
  case False
  then show ?thesis
    by (simp add: convert_user_next_ranges_dyn_def convert_user_next_ranges_def
        ranges_of_dyn_ints split: sum.splits)
qed

text \<open>
  Claim C5. For every non-empty list of integer triples \<open>(start, stop, step)\<close> that denote
  ranges (no zero step, on which \<^verbatim>\<open>range\<close> raises), \<^verbatim>\<open>convert_user_next_ranges\<close> returns
  the Cartesian product of the ranges in row-major order, the leftmost dimension varying
  slowest; \<^verbatim>\<open>[[0,3,1],[10,12,1]]\<close> gives \<^verbatim>\<open>[(0,10),(0,11),(1,10),(1,11),(2,10),(2,11)]\<close>, and
  the empty list gives the empty list.
\<close>

theorem convert_user_next_ranges_product:
  "(\<forall>ts. ts \<noteq> [] \<and> (\<forall>t \<in> set ts. snd (snd t) \<noteq> 0) \<longrightarrow>
      convert_user_next_ranges (map triple_items ts) = Inr (cartesian (map int_range ts)))
   \<and> convert_user_next_ranges [[0, 3, 1], [10, 12, 1]] =
       Inr [[0, 10], [0, 11], [1, 10], [1, 11], [2, 10], [2, 11]]
   \<and> convert_user_next_ranges [] = Inr []"
proof (intro conjI allI impI)
  fix ts :: "(int \<times> int \<times> int) list"
  assume "ts \<noteq> [] \<and> (\<forall>t \<in> set ts. snd (snd t) \<noteq> 0)"
  then show "convert_user_next_ranges (map triple_items ts) = Inr (cartesian (map int_range ts))"
    by (simp add: convert_user_next_ranges_def ranges_of_triples itertools_product_cartesian)
next
  show "convert_user_next_ranges [[0, 3, 1], [10, 12, 1]] =
       Inr [[0, 10], [0, 11], [1, 10], [1, 11], [2, 10], [2, 11]]"
    by code_simp
next
  show "convert_user_next_ranges [] = Inr []"
    by (simp add: convert_user_next_ranges_def)
qed

theorem convert_user_next_ranges_product_witness:
  "[(5, 0, -2), (10, 12, 1)] \<noteq> ([] :: (int \<times> int \<times> int) list)
   \<and> snd (snd (5::int, 0::int, -2::int)) \<noteq> 0
   \<and> snd (snd (10::int, 12::int, 1::int)) \<noteq> 0
   \<and> convert_user_next_ranges [[5, 0, -2], [10, 12, 1]] =
       Inr [[5, 10], [5, 11], [3, 10], [3, 11], [1, 10], [1, 11]]"
proof -
  have h: "[(5, 0, -2), (10, 12, 1)] \<noteq> ([] :: (int \<times> int \<times> int) list)
      \<and> (\<forall>t \<in> set [(5::int, 0::int, -2::int), (10, 12, 1)]. snd (snd t) \<noteq> 0)" by simp
  have c: "cartesian (map int_range [(5, 0, -2), (10, 12, 1)]) =
      [[5, 10], [5, 11], [3, 10], [3, 11], [1, 10], [1, 11]]"
    by code_simp
  have i: "map triple_items [(5, 0, -2), (10, 12, 1)] = [[5, 0, -2], [10, 12, 1]]"
    by (simp add: triple_items_def)
  from convert_user_next_ranges_product have
    "convert_user_next_ranges (map triple_items [(5, 0, -2), (10, 12, 1)]) =
       Inr (cartesian (map int_range [(5, 0, -2), (10, 12, 1)]))"
    using h by blast
  then have "convert_user_next_ranges [[5, 0, -2], [10, 12, 1]] =
       Inr [[5, 10], [5, 11], [3, 10], [3, 11], [1, 10], [1, 11]]"
    unfolding c i .
  then show ?thesis by simp
qed

section \<open>Properties of the loop\<close>

subsection \<open>Fuel\<close>

lemma while_loop_reach:
  "while_loop k env n tol0 s0 = (RUNNING, s) \<Longrightarrow>
   while_loop (k + j) env n tol0 s0 = while_loop j env n tol0 s"
proof (induction k arbitrary: s0)
  case 0
  then show ?case by (simp split: if_splits)
next
  case (Suc k)
  then show ?case by (auto split: if_splits outcome.splits)
qed

lemma while_loop_running:
  "while_loop k env n tol0 s0 = (RUNNING, s) \<Longrightarrow> count s < n"
  by (induction k arbitrary: s0) (auto split: if_splits outcome.splits)

lemma while_loop_Raise:
  "count s < n \<Longrightarrow> round_body env tol0 s = Raise ex s' \<Longrightarrow>
   while_loop (Suc fuel) env n tol0 s = (RAISED ex, s')"
  by simp

lemma while_loop_Break:
  "count s < n \<Longrightarrow> round_body env tol0 s = Break why s' \<Longrightarrow>
   while_loop (Suc fuel) env n tol0 s = (BROKE why, s')"
  by simp

lemma skopt_optimize_raised:
  "initial_state env a cfg0 pkl0 = Inr s0 \<Longrightarrow>
   while_loop fuel env (n_calls a) (tol a) s0 = (RAISED ex, s) \<Longrightarrow>
   skopt_optimize fuel env a cfg0 pkl0 = Some (Inl ex)"
  by (simp add: skopt_optimize_def)

subsection \<open>The stages of a round\<close>

lemmas stage_defs = after_tell_def save_plots_def save_checkpoint_def refresh_control_def Let_def

lemmas round_defs = round_body_def propose_def call_eval_func_def after_tell_def
  save_checkpoint_def save_plots_def refresh_control_def Let_def

lemmas demo_defs = demo_env_def demo_state_def demo_result_def demo_points_def demo_table_def
  mismatch_env_def converge_env_def failing_ask_env_def demo_args_def

lemma after_tell_result:
  "result s = Some r \<Longrightarrow> result (state_of (after_tell env r s)) = Some r"
  by (auto simp: stage_defs split: sum.splits prod.splits option.splits pyval.splits if_splits)

lemma after_tell_not_converged: "after_tell env r s \<noteq> Break CONVERGED s'"
  by (auto simp: stage_defs split: sum.splits prod.splits option.splits pyval.splits if_splits)

lemma after_tell_count: "count (state_of (after_tell env r s)) = count s"
  by (auto simp: stage_defs split: sum.splits prod.splits option.splits pyval.splits if_splits)

lemma after_tell_trace:
  "\<exists>evs. trace (state_of (after_tell env r s)) = trace s @ evs"
  by (auto simp: stage_defs split: sum.splits prod.splits option.splits pyval.splits if_splits)

lemma after_tell_pkl:
  "plots_dir s = Some d \<Longrightarrow> pkl_file (state_of (after_tell env r s)) = Some r"
  by (auto simp: stage_defs split: sum.splits prod.splits option.splits pyval.splits if_splits)

lemma propose_fields:
  "propose env s = Inr (next_x, s1) \<Longrightarrow>
   count s1 = count s \<and> round_no s1 = round_no s \<and> eval_func_kwargs s1 = eval_func_kwargs s
   \<and> user_ask s1 = user_ask s \<and> n_cores s1 = n_cores s \<and> plots_dir s1 = plots_dir s
   \<and> result s1 = result s \<and> cfg_file s1 = cfg_file s \<and> pkl_file s1 = pkl_file s
   \<and> user_next_x s1 = user_next_x s"
  by (auto simp: propose_def Let_def split: if_splits sum.splits)

lemma propose_trace:
  "propose env s = Inr (next_x, s1) \<Longrightarrow>
   trace s1 = trace s @ (if truthy (user_ask s) \<and> 0 < length (user_next_x s) then []
                         else [EvAsk (n_cores s)])"
  by (auto simp: propose_def Let_def split: if_splits sum.splits)

text \<open>The round up to the answer of \<^verbatim>\<open>tell\<close>.\<close>

lemma round_body_told:
  assumes "propose env s = Inr (next_x, s1)"
      and "from_records env next_x (dimension_names env (sk_optimizer s1)) = Inr param_table"
      and "call_eval_func env param_table (eval_func_kwargs s1) = Inr next_y"
      and "tell env (sk_optimizer s1) next_x next_y = Inr (e', r0)"
  shows "round_body env tol0 s =
     (if res_fun r0 < tol0 then
        Break CONVERGED
          (s1\<lparr>round_no := round_no s + 1, count := count s + int (length next_x),
              trace := trace s1 @ [EvFromRecords next_x,
                         EvEval param_table (eval_func_kwargs s), EvTell next_x next_y],
              sk_optimizer := e',
              result := Some (r0\<lparr>res_nit := Some (count s + int (length next_x)),
                                 res_success := Some True\<rparr>)\<rparr>)
      else
        after_tell env
          (r0\<lparr>res_nit := Some (count s + int (length next_x)), res_success := Some False\<rparr>)
          (s1\<lparr>round_no := round_no s + 1, count := count s + int (length next_x),
              trace := trace s1 @ [EvFromRecords next_x,
                         EvEval param_table (eval_func_kwargs s), EvTell next_x next_y],
              sk_optimizer := e',
              result := Some (r0\<lparr>res_nit := Some (count s + int (length next_x)),
                                 res_success := Some False\<rparr>)\<rparr>))"
  using assms propose_fields[OF assms(1)] by (simp add: round_body_def Let_def)

subsection \<open>A result list of the wrong length\<close>

text \<open>
  Claim C1, as stated, fails. The loop does not compare the length of the list returned by
  the evaluation function with the number of rows. With two rows and one value returned,
  \<^verbatim>\<open>count\<close> goes from 0 to 2, \<^verbatim>\<open>tell\<close> is called with the two points and the one value,
  the checkpoint is written, and the round ends like any other.
\<close>

theorem mismatch_round_counterexample:
  "from_records mismatch_env demo_points (dimension_names mismatch_env (sk_optimizer demo_state))
     = Inr demo_table
   \<and> call_eval_func mismatch_env demo_table (eval_func_kwargs demo_state) = Inr [1 / 2]
   \<and> length [1 / 2 :: real] \<noteq> length (rows demo_table)
   \<and> count demo_state = 0
   \<and> count (state_of (round_body mismatch_env (1 / 1000) demo_state)) = 2
   \<and> round_events demo_state (round_body mismatch_env (1 / 1000) demo_state) =
       [EvAsk (PInt 2), EvFromRecords demo_points, EvEval demo_table (PDict []),
        EvTell demo_points [1 / 2],
        EvDump (demo_result\<lparr>res_fun := 1 / 2, res_nit := Some 2, res_success := Some False\<rparr>),
        EvPlotEvaluations, EvSavefig ''skopt_evaluations.png'', EvPlotObjective, EvRead None]
   \<and> pkl_file (state_of (round_body mismatch_env (1 / 1000) demo_state)) =
       Some (demo_result\<lparr>res_fun := 1 / 2, res_nit := Some 2, res_success := Some False\<rparr>)"
  by (simp add: round_defs demo_defs round_events_def)

text \<open>
  Claim C1, amended. When the evaluation function returns a list whose length differs
  from the number of rows, the round is not skipped: \<^verbatim>\<open>count\<close> has grown by the batch
  size, \<^verbatim>\<open>tell\<close> is called with the points and the list as returned; an exception of
  \<^verbatim>\<open>tell\<close> leaves the loop, and when \<^verbatim>\<open>tell\<close> accepts the list the round goes on as
  usual (convergence test, then the checkpoint when a directory is configured).
\<close>

theorem mismatch_not_skipped:
  assumes "propose env s = Inr (next_x, s1)"
      and "from_records env next_x (dimension_names env (sk_optimizer s1)) = Inr param_table"
      and "call_eval_func env param_table (eval_func_kwargs s1) = Inr next_y"
      and "length next_y \<noteq> length (rows param_table)"
  shows "count (state_of (round_body env tol0 s)) = count s + int (length next_x)
     \<and> EvTell next_x next_y \<in> set (round_events s (round_body env tol0 s))
     \<and> (\<forall>ex. tell env (sk_optimizer s1) next_x next_y = Inl ex \<longrightarrow>
           (\<exists>s'. round_body env tol0 s = Raise ex s')
           \<and> (\<forall>fuel n. count s < n \<longrightarrow> fst (while_loop (Suc fuel) env n tol0 s) = RAISED ex))
     \<and> (\<forall>e' r0. tell env (sk_optimizer s1) next_x next_y = Inr (e', r0) \<longrightarrow>
           result (state_of (round_body env tol0 s)) =
             Some (r0\<lparr>res_nit := Some (count s + int (length next_x)),
                      res_success := Some (res_fun r0 < tol0)\<rparr>)
           \<and> (\<not> res_fun r0 < tol0 \<and> plots_dir s \<noteq> None \<longrightarrow>
                pkl_file (state_of (round_body env tol0 s)) =
                  Some (r0\<lparr>res_nit := Some (count s + int (length next_x)),
                           res_success := Some False\<rparr>)))"
proof (cases "tell env (sk_optimizer s1) next_x next_y")
  case (Inl ex)
  have rb: "round_body env tol0 s =
      Raise ex (s1\<lparr>round_no := round_no s + 1, count := count s + int (length next_x),
                  trace := trace s1 @ [EvFromRecords next_x,
                         EvEval param_table (eval_func_kwargs s), EvTell next_x next_y]\<rparr>)"
    using assms Inl propose_fields[OF assms(1)] by (simp add: round_body_def Let_def)
  show ?thesis using Inl propose_trace[OF assms(1)]
    by (simp add: rb round_events_def)
next
  case (Inr p)
  obtain e' r0 where p: "p = (e', r0)" by (cases p)
  note told = round_body_told[OF assms(1-3) Inr[unfolded p], of tol0]
  show ?thesis
  proof (cases "res_fun r0 < tol0")
    case True
    then show ?thesis using Inr p propose_trace[OF assms(1)]
      by (simp add: told round_events_def)
  next
    case False
    let ?r = "r0\<lparr>res_nit := Some (count s + int (length next_x)), res_success := Some False\<rparr>"
    let ?s = "s1\<lparr>round_no := round_no s + 1, count := count s + int (length next_x),
              trace := trace s1 @ [EvFromRecords next_x,
                         EvEval param_table (eval_func_kwargs s), EvTell next_x next_y],
              sk_optimizer := e', result := Some ?r\<rparr>"
    have rb: "round_body env tol0 s = after_tell env ?r ?s" using False by (simp add: told)
    obtain evs where evs: "trace (state_of (after_tell env ?r ?s)) = trace ?s @ evs"
      using after_tell_trace by blast
    have pk: "plots_dir s \<noteq> None \<Longrightarrow> pkl_file (state_of (after_tell env ?r ?s)) = Some ?r"
      using propose_fields[OF assms(1)] by (auto intro: after_tell_pkl)
    obtain pre where pre: "trace s1 = trace s @ pre"
      using propose_trace[OF assms(1)] by blast
    have "trace (state_of (after_tell env ?r ?s)) =
        trace s @ pre @ [EvFromRecords next_x, EvEval param_table (eval_func_kwargs s),
                         EvTell next_x next_y] @ evs"
      unfolding evs by (simp add: pre)
    then have "round_events s (round_body env tol0 s) =
        pre @ [EvFromRecords next_x, EvEval param_table (eval_func_kwargs s),
               EvTell next_x next_y] @ evs"
      unfolding rb round_events_def by simp
    then have ev: "EvTell next_x next_y \<in> set (round_events s (round_body env tol0 s))"
      by simp
    show ?thesis using False Inr p ev pk
      by (simp add: rb after_tell_count after_tell_result)
  qed
qed

theorem mismatch_not_skipped_witness:
  "propose mismatch_env demo_state = Inr (demo_points, demo_state\<lparr>trace := [EvAsk (PInt 2)]\<rparr>)
   \<and> from_records mismatch_env demo_points
       (dimension_names mismatch_env (sk_optimizer (demo_state\<lparr>trace := [EvAsk (PInt 2)]\<rparr>)))
       = Inr demo_table
   \<and> call_eval_func mismatch_env demo_table
       (eval_func_kwargs (demo_state\<lparr>trace := [EvAsk (PInt 2)]\<rparr>)) = Inr [1 / 2]
   \<and> length [1 / 2 :: real] \<noteq> length (rows demo_table)
   \<and> count (state_of (round_body mismatch_env (1 / 1000) demo_state)) =
       count demo_state + int (length demo_points)
   \<and> EvTell demo_points [1 / 2]
       \<in> set (round_events demo_state (round_body mismatch_env (1 / 1000) demo_state))"
proof -
  let ?s1 = "demo_state\<lparr>trace := [EvAsk (PInt 2)]\<rparr>"
  have h1: "propose mismatch_env demo_state = Inr (demo_points, ?s1)"
    by (simp add: propose_def demo_defs)
  have h2: "from_records mismatch_env demo_points
       (dimension_names mismatch_env (sk_optimizer ?s1)) = Inr demo_table"
    by (simp add: demo_defs)
  have h3: "call_eval_func mismatch_env demo_table (eval_func_kwargs ?s1) = Inr [1 / 2]"
    by (simp add: call_eval_func_def demo_defs)
  have h4: "length [1 / 2 :: real] \<noteq> length (rows demo_table)"
    by (simp add: demo_defs)
  from mismatch_not_skipped[OF h1 h2 h3 h4, of "1 / 1000"]
  have "count (state_of (round_body mismatch_env (1 / 1000) demo_state)) =
       count demo_state + int (length demo_points)
   \<and> EvTell demo_points [1 / 2]
       \<in> set (round_events demo_state (round_body mismatch_env (1 / 1000) demo_state))"
    by blast
  then show ?thesis using h1 h2 h3 h4 by blast
qed

subsection \<open>Convergence\<close>

text \<open>
  Claim C4. After \<^verbatim>\<open>tell\<close>, when the best objective value \<^verbatim>\<open>result.fun\<close> is strictly
  below \<^verbatim>\<open>tol\<close> the result is marked \<^verbatim>\<open>success = True\<close> and the loop stops before another
  round; otherwise the result is marked \<^verbatim>\<open>success = False\<close>, the round goes on with what
  follows the test, and the loop takes the next round when the round ends normally.
\<close>

theorem convergence_check:
  assumes "propose env s = Inr (next_x, s1)"
      and "from_records env next_x (dimension_names env (sk_optimizer s1)) = Inr param_table"
      and "call_eval_func env param_table (eval_func_kwargs s1) = Inr next_y"
      and "tell env (sk_optimizer s1) next_x next_y = Inr (e', r0)"
  shows "(res_fun r0 < tol0 \<longrightarrow>
           (\<exists>s'. round_body env tol0 s = Break CONVERGED s'
              \<and> result s' = Some (r0\<lparr>res_nit := Some (count s + int (length next_x)),
                                      res_success := Some True\<rparr>)
              \<and> (\<forall>fuel n. count s < n \<longrightarrow>
                    while_loop (Suc fuel) env n tol0 s = (BROKE CONVERGED, s'))))
       \<and> (\<not> res_fun r0 < tol0 \<longrightarrow>
           (\<forall>s'. round_body env tol0 s \<noteq> Break CONVERGED s')
           \<and> result (state_of (round_body env tol0 s)) =
               Some (r0\<lparr>res_nit := Some (count s + int (length next_x)),
                        res_success := Some False\<rparr>)
           \<and> (\<exists>sF. round_body env tol0 s =
                      after_tell env (r0\<lparr>res_nit := Some (count s + int (length next_x)),
                                         res_success := Some False\<rparr>) sF
                \<and> result sF = Some (r0\<lparr>res_nit := Some (count s + int (length next_x)),
                                         res_success := Some False\<rparr>))
           \<and> (\<forall>s' fuel n. round_body env tol0 s = Continue s' \<and> count s < n \<longrightarrow>
                 while_loop (Suc fuel) env n tol0 s = while_loop fuel env n tol0 s'))"
proof (cases "res_fun r0 < tol0")
  case True
  then show ?thesis by (simp add: round_body_told[OF assms])
next
  case False
  have "\<exists>sF. after_tell env (r0\<lparr>res_nit := Some (count s + int (length next_x)),
                                         res_success := Some False\<rparr>) 
       (s1\<lparr>round_no := round_no s + 1, count := count s + int (length next_x),
              trace := trace s1 @ [EvFromRecords next_x,
                         EvEval param_table (eval_func_kwargs s), EvTell next_x next_y],
              sk_optimizer := e',
              result := Some (r0\<lparr>res_nit := Some (count s + int (length next_x)),
                                 res_success := Some False\<rparr>)\<rparr>) =
                      after_tell env (r0\<lparr>res_nit := Some (count s + int (length next_x)),
                                         res_success := Some False\<rparr>) sF
                \<and> result sF = Some (r0\<lparr>res_nit := Some (count s + int (length next_x)),
                                         res_success := Some False\<rparr>)"
    by (rule exI[where x="s1\<lparr>round_no := round_no s + 1, count := count s + int (length next_x),
              trace := trace s1 @ [EvFromRecords next_x,
                         EvEval param_table (eval_func_kwargs s), EvTell next_x next_y],
              sk_optimizer := e',
              result := Some (r0\<lparr>res_nit := Some (count s + int (length next_x)),
                                 res_success := Some False\<rparr>)\<rparr>"]) simp
  with False show ?thesis
    by (simp add: round_body_told[OF assms] after_tell_not_converged after_tell_result)
qed

theorem convergence_check_witness:
  "propose converge_env demo_state = Inr (demo_points, demo_state\<lparr>trace := [EvAsk (PInt 2)]\<rparr>)
   \<and> from_records converge_env demo_points
       (dimension_names converge_env (sk_optimizer (demo_state\<lparr>trace := [EvAsk (PInt 2)]\<rparr>)))
       = Inr demo_table
   \<and> call_eval_func converge_env demo_table
       (eval_func_kwargs (demo_state\<lparr>trace := [EvAsk (PInt 2)]\<rparr>)) = Inr [0, 0]
   \<and> tell converge_env (sk_optimizer (demo_state\<lparr>trace := [EvAsk (PInt 2)]\<rparr>)) demo_points [0, 0]
       = Inr (2, demo_result\<lparr>res_fun := 0\<rparr>)
   \<and> res_fun (demo_result\<lparr>res_fun := 0\<rparr>) < 1 / 1000
   \<and> result (state_of (round_body converge_env (1 / 1000) demo_state)) =
       Some (demo_result\<lparr>res_fun := 0, res_nit := Some 2, res_success := Some True\<rparr>)
   \<and> fst (while_loop 1 converge_env 4 (1 / 1000) demo_state) = BROKE CONVERGED"
proof -
  let ?s1 = "demo_state\<lparr>trace := [EvAsk (PInt 2)]\<rparr>"
  have h1: "propose converge_env demo_state = Inr (demo_points, ?s1)"
    by (simp add: propose_def demo_defs)
  have h2: "from_records converge_env demo_points
       (dimension_names converge_env (sk_optimizer ?s1)) = Inr demo_table"
    by (simp add: demo_defs)
  have h3: "call_eval_func converge_env demo_table (eval_func_kwargs ?s1) = Inr [0, 0]"
    by (simp add: call_eval_func_def demo_defs)
  have h4: "tell converge_env (sk_optimizer ?s1) demo_points [0, 0]
       = Inr (2, demo_result\<lparr>res_fun := 0\<rparr>)"
    by (simp add: demo_defs)
  have h5: "res_fun (demo_result\<lparr>res_fun := 0\<rparr>) < 1 / 1000" by simp
  have c: "count demo_state = 0" "length demo_points = 2" by (simp_all add: demo_defs)
  from convergence_check[OF h1 h2 h3 h4, of "1 / 1000"] h5
  obtain s' where s': "round_body converge_env (1 / 1000) demo_state = Break CONVERGED s'"
     "result s' = Some (demo_result\<lparr>res_fun := 0, res_nit := Some (count demo_state + int (length demo_points)),
         res_success := Some True\<rparr>)"
     "\<forall>fuel n. count demo_state < n \<longrightarrow>
         while_loop (Suc fuel) converge_env n (1 / 1000) demo_state = (BROKE CONVERGED, s')"
    by auto
  have "while_loop (Suc 0) converge_env 4 (1 / 1000) demo_state = (BROKE CONVERGED, s')"
    using s'(3) c by simp
  then show ?thesis using h1 h2 h3 h4 h5 s'(1,2) c by simp
qed

text \<open>
  Claim C9. A round that converges ends right after \<^verbatim>\<open>tell\<close>: it writes no checkpoint,
  makes no plot, neither reads nor rewrites the control file; the checkpoint and the
  control file are those left by the round before.
\<close>

theorem converged_round_frame:
  assumes "propose env s = Inr (next_x, s1)"
      and "from_records env next_x (dimension_names env (sk_optimizer s1)) = Inr param_table"
      and "call_eval_func env param_table (eval_func_kwargs s1) = Inr next_y"
      and "tell env (sk_optimizer s1) next_x next_y = Inr (e', r0)"
      and "res_fun r0 < tol0"
  shows "\<exists>s'. round_body env tol0 s = Break CONVERGED s'
           \<and> last (round_events s (Break CONVERGED s')) = EvTell next_x next_y
           \<and> filter is_dump (round_events s (Break CONVERGED s')) = []
           \<and> filter is_plot (round_events s (Break CONVERGED s')) = []
           \<and> filter is_control (round_events s (Break CONVERGED s')) = []
           \<and> pkl_file s' = pkl_file s
           \<and> cfg_file s' = cfg_file s
           \<and> (\<forall>fuel n. count s < n \<longrightarrow>
                 while_loop (Suc fuel) env n tol0 s = (BROKE CONVERGED, s')
                 \<and> trace (snd (while_loop (Suc fuel) env n tol0 s)) = trace s')"
  using assms(5) propose_fields[OF assms(1)] propose_trace[OF assms(1)]
  by (simp add: round_body_told[OF assms(1-4)] round_events_def)

theorem converged_round_frame_witness:
  "propose converge_env demo_state = Inr (demo_points, demo_state\<lparr>trace := [EvAsk (PInt 2)]\<rparr>)
   \<and> from_records converge_env demo_points
       (dimension_names converge_env (sk_optimizer (demo_state\<lparr>trace := [EvAsk (PInt 2)]\<rparr>)))
       = Inr demo_table
   \<and> call_eval_func converge_env demo_table
       (eval_func_kwargs (demo_state\<lparr>trace := [EvAsk (PInt 2)]\<rparr>)) = Inr [0, 0]
   \<and> tell converge_env (sk_optimizer (demo_state\<lparr>trace := [EvAsk (PInt 2)]\<rparr>)) demo_points [0, 0]
       = Inr (2, demo_result\<lparr>res_fun := 0\<rparr>)
   \<and> res_fun (demo_result\<lparr>res_fun := 0\<rparr>) < 1 / 1000
   \<and> last (round_events demo_state (round_body converge_env (1 / 1000) demo_state))
       = EvTell demo_points [0, 0]
   \<and> filter is_control (round_events demo_state (round_body converge_env (1 / 1000) demo_state)) = []
   \<and> pkl_file (state_of (round_body converge_env (1 / 1000) demo_state)) = pkl_file demo_state"
proof -
  let ?s1 = "demo_state\<lparr>trace := [EvAsk (PInt 2)]\<rparr>"
  have h1: "propose converge_env demo_state = Inr (demo_points, ?s1)"
    by (simp add: propose_def demo_defs)
  have h2: "from_records converge_env demo_points
       (dimension_names converge_env (sk_optimizer ?s1)) = Inr demo_table"
    by (simp add: demo_defs)
  have h3: "call_eval_func converge_env demo_table (eval_func_kwargs ?s1) = Inr [0, 0]"
    by (simp add: call_eval_func_def demo_defs)
  have h4: "tell converge_env (sk_optimizer ?s1) demo_points [0, 0]
       = Inr (2, demo_result\<lparr>res_fun := 0\<rparr>)"
    by (simp add: demo_defs)
  have h5: "res_fun (demo_result\<lparr>res_fun := 0\<rparr>) < 1 / 1000" by simp
  from converged_round_frame[OF h1 h2 h3 h4 h5]
  obtain s' where s': "round_body converge_env (1 / 1000) demo_state = Break CONVERGED s'"
     "last (round_events demo_state (Break CONVERGED s')) = EvTell demo_points [0, 0]"
     "filter is_control (round_events demo_state (Break CONVERGED s')) = []"
     "pkl_file s' = pkl_file demo_state"
    by blast
  then show ?thesis using h1 h2 h3 h4 h5 by simp
qed

subsection \<open>A failing \<^verbatim>\<open>ask\<close>\<close>

text \<open>
  Claim C6. When \<^verbatim>\<open>ask\<close> raises ValueError in a round (no user points replace it), the
  exception leaves the loop and the function, and the round builds no parameter table:
  its only call is \<^verbatim>\<open>ask\<close>.
\<close>

theorem ask_error_propagates:
  assumes "initial_state env a cfg0 pkl0 = Inr s0"
      and "while_loop k env (n_calls a) (tol a) s0 = (RUNNING, s)"
      and "\<not> (truthy (user_ask s) \<and> 0 < length (user_next_x s))"
      and "ask env (sk_optimizer s) (n_cores s) = Inl ValueError"
  shows "round_body env (tol a) s =
           Raise ValueError (s\<lparr>trace := trace s @ [EvAsk (n_cores s)]\<rparr>)
     \<and> round_events s (round_body env (tol a) s) = [EvAsk (n_cores s)]
     \<and> filter is_from_records (round_events s (round_body env (tol a) s)) = []
     \<and> (\<forall>fuel. while_loop (k + Suc fuel) env (n_calls a) (tol a) s0 =
                  (RAISED ValueError, s\<lparr>trace := trace s @ [EvAsk (n_cores s)]\<rparr>)
              \<and> skopt_optimize (k + Suc fuel) env a cfg0 pkl0 = Some (Inl ValueError))"
proof -
  let ?s' = "s\<lparr>trace := trace s @ [EvAsk (n_cores s)]\<rparr>"
  have rb: "round_body env (tol a) s = Raise ValueError ?s'"
    using assms(3,4) by (auto simp: round_body_def propose_def)
  have lt: "count s < n_calls a" using assms(2) by (rule while_loop_running)
  have loop: "while_loop (k + Suc fuel) env (n_calls a) (tol a) s0 = (RAISED ValueError, ?s')"
    for fuel
  proof -
    have "while_loop (k + Suc fuel) env (n_calls a) (tol a) s0 =
          while_loop (Suc fuel) env (n_calls a) (tol a) s"
      using assms(2) by (rule while_loop_reach)
    also have "\<dots> = (RAISED ValueError, ?s')"
      using lt rb by (rule while_loop_Raise)
    finally show ?thesis .
  qed
  have top: "skopt_optimize (k + Suc fuel) env a cfg0 pkl0 = Some (Inl ValueError)" for fuel
    using assms(1) loop[of fuel] by (rule skopt_optimize_raised)
  have ev: "round_events s (round_body env (tol a) s) = [EvAsk (n_cores s)]"
    unfolding rb by (simp add: round_events_def)
  show ?thesis using rb loop top ev by simp
qed

theorem ask_error_propagates_witness:
  "initial_state failing_ask_env demo_args None None = Inr demo_state
   \<and> while_loop 0 failing_ask_env (n_calls demo_args) (tol demo_args) demo_state
       = (RUNNING, demo_state)
   \<and> \<not> (truthy (user_ask demo_state) \<and> 0 < length (user_next_x demo_state))
   \<and> ask failing_ask_env (sk_optimizer demo_state) (n_cores demo_state) = Inl ValueError
   \<and> round_events demo_state (round_body failing_ask_env (tol demo_args) demo_state)
       = [EvAsk (PInt 2)]
   \<and> skopt_optimize 1 failing_ask_env demo_args None None = Some (Inl ValueError)"
proof -
  have h1: "initial_state failing_ask_env demo_args None None = Inr demo_state"
    by (simp add: initial_state_def fresh_optimizer_def demo_defs)
  have h2: "while_loop 0 failing_ask_env (n_calls demo_args) (tol demo_args) demo_state
       = (RUNNING, demo_state)"
    by (simp add: demo_defs)
  have h3: "\<not> (truthy (user_ask demo_state) \<and> 0 < length (user_next_x demo_state))"
    by (simp add: demo_defs)
  have h4: "ask failing_ask_env (sk_optimizer demo_state) (n_cores demo_state) = Inl ValueError"
    by (simp add: demo_defs)
  have n: "n_cores demo_state = PInt 2" by (simp add: demo_defs)
  from ask_error_propagates[OF h1 h2 h3 h4]
  have "round_events demo_state (round_body failing_ask_env (tol demo_args) demo_state)
       = [EvAsk (n_cores demo_state)]
     \<and> skopt_optimize (0 + Suc 0) failing_ask_env demo_args None None = Some (Inl ValueError)"
    by blast
  then show ?thesis using h1 h2 h3 h4 n by simp
qed


subsection \<open>The control file\<close>

lemma setdefault_fst: "fst (setdefault d k v) = get_default d k v"
  by (simp add: setdefault_def get_default_def split: option.splits)

lemma map_of_setdefault:
  "map_of (snd (setdefault d k v)) k' =
     (if k' = k then Some (get_default d k v) else map_of d k')"
  by (auto simp: setdefault_def get_default_def map_add_def split: option.splits)

lemma get_default_setdefault:
  "k' \<noteq> k \<Longrightarrow> get_default (snd (setdefault d k v)) k' w = get_default d k' w"
  by (simp add: get_default_def map_of_setdefault)

text \<open>What the statements on the dictionary compute, entry by entry.\<close>

lemma apply_opt_dict_eq:
  "apply_opt_dict n u d =
     (get_default d ''n_cores'' n,
      get_default d ''user_ask'' (PBool False),
      (case convert_user_next_ranges_dyn (get_default d ''user_range_prod'' (PList [])) of
         Inl ex \<Rightarrow> u | Inr combis \<Rightarrow> combis),
      (if truthy (get_default d ''user_ask'' (PBool False))
       then get_default d ''eval_func_kwargs'' (PDict []) else PDict []),
      get_default d ''kill'' (PBool False),
      written_doc n u d)"
  by (simp add: written_doc_def apply_opt_dict_def Let_def case_prod_beta setdefault_fst
      get_default_setdefault)

lemma map_of_written_doc:
  "map_of (written_doc n u d) k =
     (if k = ''kill'' \<or> k = ''user_ask'' then Some (PBool False)
      else if k = ''eval_func_kwargs'' \<and> truthy (get_default d ''user_ask'' (PBool False))
        then Some (get_default d ''eval_func_kwargs'' (PDict []))
      else if k = ''user_range_prod'' then Some (get_default d ''user_range_prod'' (PList []))
      else if k = ''n_cores'' then Some (get_default d ''n_cores'' n)
      else map_of d k)"
  by (simp add: written_doc_def apply_opt_dict_def Let_def case_prod_beta setdefault_fst
      get_default_setdefault map_of_setdefault update_conv')

lemma refresh_control_dict:
  assumes "operator env (round_no s) (cfg_file s) = Some (PDict d)"
  shows "refresh_control env s =
     (case cfg_write env (round_no s) (PDict (written_doc (n_cores s) (user_next_x s) d)) of
        Some ex \<Rightarrow>
          Continue
            (s\<lparr>cfg_file := Some (PDict d),
               trace := trace s @ [EvRead (Some (PDict d)),
                          EvWrite (PDict (written_doc (n_cores s) (user_next_x s) d))],
               n_cores := get_default d ''n_cores'' (n_cores s),
               user_ask := get_default d ''user_ask'' (PBool False),
               user_next_x :=
                 (case convert_user_next_ranges_dyn
                         (get_default d ''user_range_prod'' (PList [])) of
                    Inl ex \<Rightarrow> user_next_x s | Inr combis \<Rightarrow> combis),
               eval_func_kwargs :=
                 (if truthy (get_default d ''user_ask'' (PBool False))
                  then get_default d ''eval_func_kwargs'' (PDict []) else PDict [])\<rparr>)
      | None \<Rightarrow>
          (if truthy (get_default d ''kill'' (PBool False)) then Break KILLED else Continue)
            (s\<lparr>cfg_file := Some (PDict (written_doc (n_cores s) (user_next_x s) d)),
               trace := trace s @ [EvRead (Some (PDict d)),
                          EvWrite (PDict (written_doc (n_cores s) (user_next_x s) d))],
               n_cores := get_default d ''n_cores'' (n_cores s),
               user_ask := get_default d ''user_ask'' (PBool False),
               user_next_x :=
                 (case convert_user_next_ranges_dyn
                         (get_default d ''user_range_prod'' (PList [])) of
                    Inl ex \<Rightarrow> user_next_x s | Inr combis \<Rightarrow> combis),
               eval_func_kwargs :=
                 (if truthy (get_default d ''user_ask'' (PBool False))
                  then get_default d ''eval_func_kwargs'' (PDict []) else PDict [])\<rparr>))"
  using assms
  by (simp add: refresh_control_def Let_def apply_opt_dict_eq split: option.splits)

lemma refresh_control_other:
  assumes "\<forall>d. operator env (round_no s) (cfg_file s) \<noteq> Some (PDict d)"
  shows "refresh_control env s =
     Continue (s\<lparr>cfg_file := operator env (round_no s) (cfg_file s),
                 trace := trace s @ [EvRead (operator env (round_no s) (cfg_file s))]\<rparr>)"
  using assms by (auto simp: refresh_control_def Let_def split: option.splits pyval.splits)

lemma refresh_control_trace:
  "\<exists>w. trace (state_of (refresh_control env s)) =
         trace s @ EvRead (operator env (round_no s) (cfg_file s)) # w
       \<and> (\<forall>ev \<in> set w. \<exists>d. ev = EvWrite d)"
proof (cases "\<exists>d. operator env (round_no s) (cfg_file s) = Some (PDict d)")
  case True
  then obtain d where d: "operator env (round_no s) (cfg_file s) = Some (PDict d)" by blast
  show ?thesis by (simp add: refresh_control_dict[OF d] d split: option.splits)
next
  case False
  then have "\<forall>d. operator env (round_no s) (cfg_file s) \<noteq> Some (PDict d)" by blast
  then show ?thesis by (simp add: refresh_control_other)
qed

text \<open>When the write succeeds.\<close>

lemma refresh_control_written:
  assumes "operator env (round_no s) (cfg_file s) = Some (PDict d)"
      and "cfg_write env (round_no s) (PDict (written_doc (n_cores s) (user_next_x s) d)) = None"
  shows "refresh_control env s =
     (if truthy (get_default d ''kill'' (PBool False)) then Break KILLED else Continue)
       (s\<lparr>cfg_file := Some (PDict (written_doc (n_cores s) (user_next_x s) d)),
          trace := trace s @ [EvRead (Some (PDict d)),
                     EvWrite (PDict (written_doc (n_cores s) (user_next_x s) d))],
          n_cores := get_default d ''n_cores'' (n_cores s),
          user_ask := get_default d ''user_ask'' (PBool False),
          user_next_x :=
            (case convert_user_next_ranges_dyn (get_default d ''user_range_prod'' (PList [])) of
               Inl ex \<Rightarrow> user_next_x s | Inr combis \<Rightarrow> combis),
          eval_func_kwargs :=
            (if truthy (get_default d ''user_ask'' (PBool False))
             then get_default d ''eval_func_kwargs'' (PDict []) else PDict [])\<rparr>)"
  using assms(2) by (simp add: refresh_control_dict[OF assms(1)])

text \<open>When the write raises: the exception is passed over, the file is as it was found.\<close>

lemma refresh_control_write_failed:
  assumes "operator env (round_no s) (cfg_file s) = Some (PDict d)"
      and "cfg_write env (round_no s) (PDict (written_doc (n_cores s) (user_next_x s) d)) = Some ex"
  shows "\<exists>s'. refresh_control env s = Continue s' \<and> cfg_file s' = Some (PDict d)
     \<and> user_ask s' = get_default d ''user_ask'' (PBool False)"
  using assms(2) by (simp add: refresh_control_dict[OF assms(1)])

lemmas kill_defs = kill_doc_def kill_state_def

lemmas control_defs = apply_opt_dict_def setdefault_def





subsection \<open>Checkpoint, plots and the order of a round\<close>

lemma save_stage_Inr:
  assumes "save_plots env r (save_checkpoint r s) = Inr s1"
  shows "\<exists>mid. trace s1 = trace s @ mid
     \<and> (\<forall>ev \<in> set mid. is_dump ev \<or> is_plot ev)
     \<and> (plots_dir s \<noteq> None \<longrightarrow> EvDump r \<in> set mid \<and> pkl_file s1 = Some r)
     \<and> (plots_dir s = None \<longrightarrow> pkl_file s1 = pkl_file s)
     \<and> (1 < res_n_dims r \<longrightarrow> EvPlotEvaluations \<in> set mid)
     \<and> result s1 = result s \<and> cfg_file s1 = cfg_file s \<and> round_no s1 = round_no s
     \<and> count s1 = count s \<and> n_cores s1 = n_cores s \<and> user_next_x s1 = user_next_x s
     \<and> user_ask s1 = user_ask s \<and> eval_func_kwargs s1 = eval_func_kwargs s
     \<and> sk_optimizer s1 = sk_optimizer s"
  using assms
  by (auto simp: save_plots_def save_checkpoint_def Let_def
      split: option.splits if_splits)

lemma save_stage_Inl:
  assumes "save_plots env r (save_checkpoint r s) = Inl (ex, s1)"
  shows "\<exists>mid. trace s1 = trace s @ mid \<and> (\<forall>ev \<in> set mid. is_dump ev \<or> is_plot ev)"
  using assms
  by (auto simp: save_plots_def save_checkpoint_def Let_def
      split: option.splits if_splits)

lemma save_stage_Inl_fields:
  assumes "save_plots env r (save_checkpoint r s) = Inl (ex, s1)"
  shows "user_ask s1 = user_ask s \<and> eval_func_kwargs s1 = eval_func_kwargs s"
  using assms
  by (auto simp: save_plots_def save_checkpoint_def Let_def split: option.splits if_splits)

lemma propose_Inl:
  "propose env s = Inl (ex, s1) \<Longrightarrow> s1 = s\<lparr>trace := trace s @ [EvAsk (n_cores s)]\<rparr>"
  by (auto simp: propose_def Let_def split: if_splits sum.splits)

lemma propose_asks:
  "propose env s = Inr (next_x, s1) \<Longrightarrow>
   \<exists>pre. trace s1 = trace s @ pre \<and> (\<forall>ev \<in> set pre. is_ask ev)"
  by (auto simp: propose_def Let_def split: if_splits sum.splits)

text \<open>The ways a round can end.\<close>

lemma round_body_summary:
  obtains
    (ask_raised) ex where
      "round_body env tol0 s = Raise ex (s\<lparr>trace := trace s @ [EvAsk (n_cores s)]\<rparr>)"
  | (skipped) next_x s1 where
      "propose env s = Inr (next_x, s1)"
      "round_body env tol0 s = Continue (s1\<lparr>trace := trace s1 @ [EvFromRecords next_x]\<rparr>)"
  | (eval_raised) next_x s1 pt ex where
      "propose env s = Inr (next_x, s1)"
      "round_body env tol0 s =
         Raise ex (s1\<lparr>round_no := round_no s + 1, count := count s + int (length next_x),
                     trace := trace s1 @ [EvFromRecords next_x, EvEval pt (eval_func_kwargs s)]\<rparr>)"
  | (tell_raised) next_x s1 pt next_y ex where
      "propose env s = Inr (next_x, s1)"
      "round_body env tol0 s =
         Raise ex (s1\<lparr>round_no := round_no s + 1, count := count s + int (length next_x),
                     trace := trace s1 @ [EvFromRecords next_x, EvEval pt (eval_func_kwargs s),
                                EvTell next_x next_y]\<rparr>)"
  | (converged) next_x s1 pt next_y e' r where
      "propose env s = Inr (next_x, s1)"
      "round_body env tol0 s =
         Break CONVERGED
           (s1\<lparr>round_no := round_no s + 1, count := count s + int (length next_x),
               trace := trace s1 @ [EvFromRecords next_x, EvEval pt (eval_func_kwargs s),
                          EvTell next_x next_y],
               sk_optimizer := e', result := Some r\<rparr>)"
  | (went_on) next_x s1 pt next_y e' r where
      "propose env s = Inr (next_x, s1)"
      "round_body env tol0 s =
         after_tell env r
           (s1\<lparr>round_no := round_no s + 1, count := count s + int (length next_x),
               trace := trace s1 @ [EvFromRecords next_x, EvEval pt (eval_func_kwargs s),
                          EvTell next_x next_y],
               sk_optimizer := e', result := Some r\<rparr>)"
proof (cases "propose env s")
  case (Inl p)
  obtain ex s1 where p: "p = (ex, s1)" by (cases p)
  have "round_body env tol0 s = Raise ex (s\<lparr>trace := trace s @ [EvAsk (n_cores s)]\<rparr>)"
    using Inl p propose_Inl[of env s ex s1] by (simp add: round_body_def)
  then show ?thesis by (rule ask_raised)
next
  case (Inr p)
  obtain next_x s1 where p: "p = (next_x, s1)" by (cases p)
  have pr: "propose env s = Inr (next_x, s1)" using Inr p by simp
  note pf = propose_fields[OF pr]
  show ?thesis
  proof (cases "from_records env next_x (dimension_names env (sk_optimizer s1))")
    case (Inl ex)
    have "round_body env tol0 s = Continue (s1\<lparr>trace := trace s1 @ [EvFromRecords next_x]\<rparr>)"
      using pr Inl by (simp add: round_body_def Let_def)
    with pr show ?thesis by (rule skipped)
  next
    case fr: (Inr pt)
    show ?thesis
    proof (cases "call_eval_func env pt (eval_func_kwargs s1)")
      case (Inl ex)
      have "round_body env tol0 s =
         Raise ex (s1\<lparr>round_no := round_no s + 1, count := count s + int (length next_x),
                     trace := trace s1 @ [EvFromRecords next_x, EvEval pt (eval_func_kwargs s)]\<rparr>)"
        using pr fr Inl pf by (simp add: round_body_def Let_def)
      with pr show ?thesis by (rule eval_raised)
    next
      case ev: (Inr next_y)
      show ?thesis
      proof (cases "tell env (sk_optimizer s1) next_x next_y")
        case (Inl ex)
        have "round_body env tol0 s =
         Raise ex (s1\<lparr>round_no := round_no s + 1, count := count s + int (length next_x),
                     trace := trace s1 @ [EvFromRecords next_x, EvEval pt (eval_func_kwargs s),
                                EvTell next_x next_y]\<rparr>)"
          using pr fr ev Inl pf by (simp add: round_body_def Let_def)
        with pr show ?thesis by (rule tell_raised)
      next
        case (Inr q)
        obtain e' r0 where q: "q = (e', r0)" by (cases q)
        have tl: "tell env (sk_optimizer s1) next_x next_y = Inr (e', r0)" using Inr q by simp
        note told = round_body_told[OF pr fr ev tl, of tol0]
        show ?thesis
        proof (cases "res_fun r0 < tol0")
          case True
          with told have "round_body env tol0 s =
            Break CONVERGED
              (s1\<lparr>round_no := round_no s + 1, count := count s + int (length next_x),
                  trace := trace s1 @ [EvFromRecords next_x, EvEval pt (eval_func_kwargs s),
                             EvTell next_x next_y],
                  sk_optimizer := e',
                  result := Some (r0\<lparr>res_nit := Some (count s + int (length next_x)),
                                 res_success := Some True\<rparr>)\<rparr>)"
            by simp
          with pr show ?thesis by (rule converged)
        next
          case False
          with told have "round_body env tol0 s =
            after_tell env (r0\<lparr>res_nit := Some (count s + int (length next_x)),
                                 res_success := Some False\<rparr>)
              (s1\<lparr>round_no := round_no s + 1, count := count s + int (length next_x),
                  trace := trace s1 @ [EvFromRecords next_x, EvEval pt (eval_func_kwargs s),
                             EvTell next_x next_y],
                  sk_optimizer := e',
                  result := Some (r0\<lparr>res_nit := Some (count s + int (length next_x)),
                                 res_success := Some False\<rparr>)\<rparr>)"
            by simp
          with pr show ?thesis by (rule went_on)
        qed
      qed
    qed
  qed
qed

text \<open>A round that reads the control file has gone through \<^verbatim>\<open>tell\<close> and has not converged.\<close>

lemma round_read_path:
  assumes "EvRead x \<in> set (round_events s (round_body env tol0 s))"
  shows "\<exists>next_x s1 pt next_y e' r0.
      propose env s = Inr (next_x, s1)
    \<and> from_records env next_x (dimension_names env (sk_optimizer s1)) = Inr pt
    \<and> call_eval_func env pt (eval_func_kwargs s1) = Inr next_y
    \<and> tell env (sk_optimizer s1) next_x next_y = Inr (e', r0)
    \<and> \<not> res_fun r0 < tol0"
proof (cases "propose env s")
  case (Inl p)
  obtain ex s1 where p: "p = (ex, s1)" by (cases p)
  have "round_events s (round_body env tol0 s) = [EvAsk (n_cores s)]"
    using Inl p propose_Inl[of env s ex s1] by (simp add: round_body_def round_events_def)
  with assms show ?thesis by simp
next
  case (Inr p)
  obtain next_x s1 where p: "p = (next_x, s1)" by (cases p)
  have pr: "propose env s = Inr (next_x, s1)" using Inr p by simp
  obtain pre where pre: "trace s1 = trace s @ pre" "\<forall>ev \<in> set pre. is_ask ev"
    using propose_asks[OF pr] by blast
  have noread: "EvRead x \<notin> set pre" using pre(2) by auto
  show ?thesis
  proof (cases "from_records env next_x (dimension_names env (sk_optimizer s1))")
    case (Inl ex)
    have "round_events s (round_body env tol0 s) = pre @ [EvFromRecords next_x]"
      using pr Inl pre(1) by (simp add: round_body_def round_events_def Let_def)
    with assms noread show ?thesis by simp
  next
    case fr: (Inr pt)
    show ?thesis
    proof (cases "call_eval_func env pt (eval_func_kwargs s1)")
      case (Inl ex)
      have "round_events s (round_body env tol0 s) =
          pre @ [EvFromRecords next_x, EvEval pt (eval_func_kwargs s1)]"
        using pr fr Inl pre(1) by (simp add: round_body_def round_events_def Let_def)
      with assms noread show ?thesis by simp
    next
      case ev: (Inr next_y)
      show ?thesis
      proof (cases "tell env (sk_optimizer s1) next_x next_y")
        case (Inl ex)
        have "round_events s (round_body env tol0 s) =
            pre @ [EvFromRecords next_x, EvEval pt (eval_func_kwargs s1), EvTell next_x next_y]"
          using pr fr ev Inl pre(1) by (simp add: round_body_def round_events_def Let_def)
        with assms noread show ?thesis by simp
      next
        case (Inr q)
        obtain e' r0 where q: "q = (e', r0)" by (cases q)
        have tl: "tell env (sk_optimizer s1) next_x next_y = Inr (e', r0)" using Inr q by simp
        show ?thesis
        proof (cases "res_fun r0 < tol0")
          case True
          have "round_events s (round_body env tol0 s) =
              pre @ [EvFromRecords next_x, EvEval pt (eval_func_kwargs s), EvTell next_x next_y]"
            using True pre(1) by (simp add: round_body_told[OF pr fr ev tl] round_events_def)
          with assms noread show ?thesis by simp
        next
          case False
          with pr fr ev tl show ?thesis by blast
        qed
      qed
    qed
  qed
qed

lemma after_tell_read:
  assumes "EvRead x \<in> set (round_events s (after_tell env r s))"
  shows "\<exists>s1 mid. after_tell env r s = refresh_control env s1
     \<and> operator env (round_no s1) (cfg_file s1) = x
     \<and> trace s1 = trace s @ mid
     \<and> (\<forall>ev \<in> set mid. is_dump ev \<or> is_plot ev)
     \<and> (plots_dir s \<noteq> None \<longrightarrow> EvDump r \<in> set mid \<and> pkl_file s1 = Some r)
     \<and> (1 < res_n_dims r \<longrightarrow> EvPlotEvaluations \<in> set mid)
     \<and> result s1 = result s \<and> count s1 = count s
     \<and> n_cores s1 = n_cores s \<and> user_next_x s1 = user_next_x s
     \<and> round_no s1 = round_no s"
proof (cases "save_plots env r (save_checkpoint r s)")
  case (Inl p)
  obtain ex s1 where p: "p = (ex, s1)" by (cases p)
  obtain mid where mid: "trace s1 = trace s @ mid" "\<forall>ev \<in> set mid. is_dump ev \<or> is_plot ev"
    using save_stage_Inl[of env r s ex s1] Inl p by auto
  have "round_events s (after_tell env r s) = mid"
    using Inl p mid(1) by (simp add: after_tell_def round_events_def)
  with assms mid(2) show ?thesis by auto
next
  case (Inr s1)
  from save_stage_Inr[OF Inr] obtain mid where mid: "trace s1 = trace s @ mid"
     "\<forall>ev \<in> set mid. is_dump ev \<or> is_plot ev"
     "plots_dir s \<noteq> None \<longrightarrow> EvDump r \<in> set mid \<and> pkl_file s1 = Some r"
     "1 < res_n_dims r \<longrightarrow> EvPlotEvaluations \<in> set mid"
     "result s1 = result s" "count s1 = count s" "n_cores s1 = n_cores s"
     "user_next_x s1 = user_next_x s" "round_no s1 = round_no s"
    by blast
  have at: "after_tell env r s = refresh_control env s1" using Inr by (simp add: after_tell_def)
  obtain w where w: "trace (state_of (refresh_control env s1)) =
         trace s1 @ EvRead (operator env (round_no s1) (cfg_file s1)) # w"
       "\<forall>ev \<in> set w. \<exists>d. ev = EvWrite d"
    using refresh_control_trace by blast
  have "round_events s (after_tell env r s) =
      mid @ EvRead (operator env (round_no s1) (cfg_file s1)) # w"
    unfolding at round_events_def w(1) mid(1) by simp
  with assms mid(2) w(2) have "operator env (round_no s1) (cfg_file s1) = x" by auto
  with at mid show ?thesis by blast
qed

text \<open>
  A round whose read of the control file gives a dictionary with a true \<^verbatim>\<open>kill\<close>, and
  whose write succeeds: the loop stops with that round; the read comes after the round's
  \<^verbatim>\<open>tell\<close>, after the checkpoint (written when a directory is configured) and after the
  plots (made when the space has more than one dimension).
\<close>

lemma kill_stops_when_written:
  assumes "EvRead (Some (PDict d)) \<in> set (round_events s (round_body env tol0 s))"
      and "truthy (get_default d ''kill'' (PBool False))"
      and "cfg_write env (round_no s + 1)
             (PDict (written_doc (n_cores s) (user_next_x s) d)) = None"
  shows "\<exists>s' pre d' next_x next_y r.
       round_body env tol0 s = Break KILLED s'
     \<and> round_events s (Break KILLED s') = pre @ [EvRead (Some (PDict d)), EvWrite (PDict d')]
     \<and> EvTell next_x next_y \<in> set pre
     \<and> (\<forall>ev \<in> set pre. \<not> is_control ev)
     \<and> result s' = Some r
     \<and> (plots_dir s \<noteq> None \<longrightarrow> EvDump r \<in> set pre \<and> pkl_file s' = Some r)
     \<and> (1 < res_n_dims r \<longrightarrow> EvPlotEvaluations \<in> set pre)
     \<and> cfg_file s' = Some (PDict d')
     \<and> map_of d' ''kill'' = Some (PBool False)
     \<and> (\<forall>fuel n. count s < n \<longrightarrow> while_loop (Suc fuel) env n tol0 s = (BROKE KILLED, s'))"
proof -
  from round_read_path[OF assms(1)] obtain next_x s1 pt next_y e' r0 where
      pr: "propose env s = Inr (next_x, s1)"
    and fr: "from_records env next_x (dimension_names env (sk_optimizer s1)) = Inr pt"
    and ev: "call_eval_func env pt (eval_func_kwargs s1) = Inr next_y"
    and tl: "tell env (sk_optimizer s1) next_x next_y = Inr (e', r0)"
    and nc: "\<not> res_fun r0 < tol0"
    by blast
  note pf = propose_fields[OF pr]
  let ?r = "r0\<lparr>res_nit := Some (count s + int (length next_x)), res_success := Some False\<rparr>"
  let ?sF = "s1\<lparr>round_no := round_no s + 1, count := count s + int (length next_x),
              trace := trace s1 @ [EvFromRecords next_x,
                         EvEval pt (eval_func_kwargs s), EvTell next_x next_y],
              sk_optimizer := e', result := Some ?r\<rparr>"
  have rb: "round_body env tol0 s = after_tell env ?r ?sF"
    using nc by (simp add: round_body_told[OF pr fr ev tl])
  obtain pre0 where pre0: "trace s1 = trace s @ pre0" "\<forall>ev \<in> set pre0. is_ask ev"
    using propose_asks[OF pr] by blast
  let ?told = "[EvFromRecords next_x, EvEval pt (eval_func_kwargs s), EvTell next_x next_y]"
  have trF: "trace ?sF = trace s @ pre0 @ ?told" using pre0(1) by simp
  obtain evs where evs: "trace (state_of (after_tell env ?r ?sF)) = trace ?sF @ evs"
    using after_tell_trace by blast
  have split: "round_events s (round_body env tol0 s) = pre0 @ ?told @ evs"
    unfolding rb round_events_def evs trF by simp
  have evsF: "round_events ?sF (after_tell env ?r ?sF) = evs"
    unfolding round_events_def evs by simp
  have "EvRead (Some (PDict d)) \<notin> set (pre0 @ ?told)" using pre0(2) by auto
  with assms(1) split have "EvRead (Some (PDict d)) \<in> set evs" by auto
  then have "EvRead (Some (PDict d)) \<in> set (round_events ?sF (after_tell env ?r ?sF))"
    by (simp only: evsF)
  from after_tell_read[OF this] obtain sb mid where
      at: "after_tell env ?r ?sF = refresh_control env sb"
    and op: "operator env (round_no sb) (cfg_file sb) = Some (PDict d)"
    and mid: "trace sb = trace ?sF @ mid" "\<forall>ev \<in> set mid. is_dump ev \<or> is_plot ev"
       "plots_dir ?sF \<noteq> None \<longrightarrow> EvDump ?r \<in> set mid \<and> pkl_file sb = Some ?r"
       "1 < res_n_dims ?r \<longrightarrow> EvPlotEvaluations \<in> set mid"
       "result sb = result ?sF"
    and same: "n_cores sb = n_cores ?sF" "user_next_x sb = user_next_x ?sF"
       "round_no sb = round_no ?sF"
    by blast
  have sb: "n_cores sb = n_cores s" "user_next_x sb = user_next_x s"
      "round_no sb = round_no s + 1"
    using same pf by simp_all
  let ?d' = "written_doc (n_cores sb) (user_next_x sb) d"
  have wr: "cfg_write env (round_no sb) (PDict ?d') = None"
    using assms(3) sb by simp
  let ?s' = "sb\<lparr>cfg_file := Some (PDict ?d'),
          trace := trace sb @ [EvRead (Some (PDict d)), EvWrite (PDict ?d')],
          n_cores := get_default d ''n_cores'' (n_cores sb),
          user_ask := get_default d ''user_ask'' (PBool False),
          user_next_x :=
            (case convert_user_next_ranges_dyn (get_default d ''user_range_prod'' (PList [])) of
               Inl ex \<Rightarrow> user_next_x sb | Inr combis \<Rightarrow> combis),
          eval_func_kwargs :=
            (if truthy (get_default d ''user_ask'' (PBool False))
             then get_default d ''eval_func_kwargs'' (PDict []) else PDict [])\<rparr>"
  let ?pre = "pre0 @ ?told @ mid"
  have out: "round_body env tol0 s = Break KILLED ?s'"
    unfolding rb at using assms(2) by (simp add: refresh_control_written[OF op wr])
  have tr': "trace ?s' = trace s @ ?pre @ [EvRead (Some (PDict d)), EvWrite (PDict ?d')]"
    using mid(1) trF by simp
  have c1: "round_events s (Break KILLED ?s') = ?pre @ [EvRead (Some (PDict d)), EvWrite (PDict ?d')]"
    unfolding round_events_def state_of.simps tr' by simp
  have c2: "EvTell next_x next_y \<in> set ?pre" by simp
  have c3: "\<forall>ev \<in> set ?pre. \<not> is_control ev"
  proof
    fix ev assume "ev \<in> set ?pre"
    then consider "ev \<in> set pre0" | "ev \<in> set ?told" | "ev \<in> set mid" by auto
    then show "\<not> is_control ev"
    proof cases
      case 1 with pre0(2) have "is_ask ev" by blast
      then show ?thesis by (cases ev) simp_all
    next
      case 2 then show ?thesis by auto
    next
      case 3 with mid(2) have "is_dump ev \<or> is_plot ev" by blast
      then show ?thesis by (cases ev) simp_all
    qed
  qed
  have pd: "plots_dir ?sF = plots_dir s" using pf by simp
  have c4: "result ?s' = Some ?r" using mid(5) by simp
  have c5: "plots_dir s \<noteq> None \<longrightarrow> EvDump ?r \<in> set ?pre \<and> pkl_file ?s' = Some ?r"
    using mid(3) pd by simp
  have c6: "1 < res_n_dims ?r \<longrightarrow> EvPlotEvaluations \<in> set ?pre" using mid(4) by simp
  have c7: "cfg_file ?s' = Some (PDict ?d')" by simp
  have c8: "map_of ?d' ''kill'' = Some (PBool False)" by (simp add: map_of_written_doc)
  have c9: "\<forall>fuel n. count s < n \<longrightarrow> while_loop (Suc fuel) env n tol0 s = (BROKE KILLED, ?s')"
    using out by simp
  show ?thesis
    using out c1 c2 c3 c4 c5 c6 c7 c8 c9 by blast
qed

text \<open>
  Claim C2. A round whose read of the control file gives \<^verbatim>\<open>kill: true\<close> should end the
  loop before the next \<^verbatim>\<open>ask\<close>, as the docstring of \<^verbatim>\<open>opt_cfg\<close> says. The code does not
  when the file cannot be opened for writing: \<^verbatim>\<open>yaml.dump(opt_dict, open(opt_cfg, 'w'))\<close>
  raises before \<^verbatim>\<open>if kill: break\<close> is reached, \<^verbatim>\<open>except Exception: pass\<close> passes over it,
  and the loop goes on. Here the round makes its \<^verbatim>\<open>tell\<close>, checkpoint and plots, reads
  \<^verbatim>\<open>kill: true\<close>, and the loop then calls \<^verbatim>\<open>ask\<close> a second time.
\<close>

theorem kill_ignored_when_write_fails:
  "operator readonly_env (round_no kill_state + 1) (cfg_file kill_state) = Some (PDict kill_doc)
   \<and> map_of kill_doc ''kill'' = Some (PBool True)
   \<and> round_events kill_state (round_body readonly_env (1 / 1000) kill_state) =
       [EvAsk (PInt 2), EvFromRecords demo_points, EvEval demo_table (PDict []),
        EvTell demo_points [1 / 2, 1 / 2],
        EvDump (demo_result\<lparr>res_fun := 1 / 2, res_nit := Some 2, res_success := Some False\<rparr>),
        EvPlotEvaluations, EvSavefig ''skopt_evaluations.png'', EvPlotObjective,
        EvRead (Some (PDict kill_doc)),
        EvWrite (PDict [(''kill'', PBool False), (''note'', PStr ''keep''),
          (''user_ask'', PBool False), (''n_cores'', PInt 2), (''user_range_prod'', PList []),
          (''eval_func_kwargs'', PDict [])])]
   \<and> outcome_tag (round_body readonly_env (1 / 1000) kill_state) = RUNNING
   \<and> cfg_file (state_of (round_body readonly_env (1 / 1000) kill_state)) = Some (PDict kill_doc)
   \<and> fst (while_loop 2 readonly_env 100 (1 / 1000) kill_state) = RUNNING
   \<and> filter is_ask (trace (snd (while_loop 2 readonly_env 100 (1 / 1000) kill_state))) =
       [EvAsk (PInt 2), EvAsk (PInt 2)]"
proof -
  have two: "(2::nat) = Suc (Suc 0)" by simp
  have a: "operator readonly_env (round_no kill_state + 1) (cfg_file kill_state) =
        Some (PDict kill_doc)"
     "map_of kill_doc ''kill'' = Some (PBool True)"
    by (simp_all add: demo_defs kill_defs readonly_env_def)
  have b: "round_events kill_state (round_body readonly_env (1 / 1000) kill_state) =
       [EvAsk (PInt 2), EvFromRecords demo_points, EvEval demo_table (PDict []),
        EvTell demo_points [1 / 2, 1 / 2],
        EvDump (demo_result\<lparr>res_fun := 1 / 2, res_nit := Some 2, res_success := Some False\<rparr>),
        EvPlotEvaluations, EvSavefig ''skopt_evaluations.png'', EvPlotObjective,
        EvRead (Some (PDict kill_doc)),
        EvWrite (PDict [(''kill'', PBool False), (''note'', PStr ''keep''),
          (''user_ask'', PBool False), (''n_cores'', PInt 2), (''user_range_prod'', PList []),
          (''eval_func_kwargs'', PDict [])])]"
     "outcome_tag (round_body readonly_env (1 / 1000) kill_state) = RUNNING"
     "cfg_file (state_of (round_body readonly_env (1 / 1000) kill_state)) = Some (PDict kill_doc)"
    by (simp_all add: round_defs control_defs demo_defs kill_defs readonly_env_def round_events_def
        convert_user_next_ranges_dyn_def)
  have c: "fst (while_loop 2 readonly_env 100 (1 / 1000) kill_state) = RUNNING"
     "filter is_ask (trace (snd (while_loop 2 readonly_env 100 (1 / 1000) kill_state))) =
       [EvAsk (PInt 2), EvAsk (PInt 2)]"
    unfolding two
    by (simp_all add: round_defs control_defs demo_defs kill_defs readonly_env_def
        convert_user_next_ranges_dyn_def)
  show ?thesis using a b c by simp
qed

subsection \<open>The evaluations counter\<close>









lemma while_loop_exhausted:
  "n \<le> count s0 \<Longrightarrow> while_loop k env n tol0 s0 = (EXHAUSTED, s0)"
  by (cases k) simp_all


lemma initial_state_count:
  "initial_state env a cfg0 pkl0 = Inr s0 \<Longrightarrow>
   count s0 = int (length (Xi env (sk_optimizer s0))) \<and> trace s0 = []
   \<and> user_ask s0 = PBool False \<and> eval_func_kwargs s0 = PDict []
   \<and> (optimizer_pickle a = None \<longrightarrow> sk_optimizer s0 = fresh_optimizer env a)"
  by (auto simp: initial_state_def Let_def split: option.splits sum.splits)




subsection \<open>Keyword parameters of the evaluation function\<close>

lemma last_read_append:
  "last_read (xs @ ys) = (case last_read ys of Some d \<Rightarrow> Some d | None \<Rightarrow> last_read xs)"
  by (induction xs) (auto split: option.splits)

lemma evals_follow_append:
  "evals_follow r (xs @ ys) =
     (evals_follow r xs
      \<and> evals_follow (case last_read xs of Some d \<Rightarrow> Some d | None \<Rightarrow> r) ys)"
  by (induction r xs rule: evals_follow.induct) (auto split: option.splits)

lemma quiet_events:
  "\<forall>ev \<in> set evs. \<not> is_eval ev \<and> \<not> is_control ev \<Longrightarrow>
   last_read evs = None \<and> evals_follow r evs"
  by (induction r evs rule: evals_follow.induct) auto

lemma control_inv_quiet:
  assumes "control_inv s" and "trace s' = trace s @ evs"
      and "\<forall>ev \<in> set evs. \<not> is_eval ev \<and> \<not> is_control ev"
      and "user_ask s' = user_ask s" and "eval_func_kwargs s' = eval_func_kwargs s"
  shows "control_inv s'"
  using assms quiet_events[OF assms(3)]
  by (simp add: control_inv_def last_read_append evals_follow_append)

lemma control_inv_eval:
  assumes "control_inv s" and "trace s' = trace s @ pre @ EvEval pt (eval_func_kwargs s) # post"
      and "\<forall>ev \<in> set pre. \<not> is_eval ev \<and> \<not> is_control ev"
      and "\<forall>ev \<in> set post. \<not> is_eval ev \<and> \<not> is_control ev"
      and "user_ask s' = user_ask s" and "eval_func_kwargs s' = eval_func_kwargs s"
  shows "control_inv s'"
proof -
  from assms(1) have i: "user_ask s = user_ask_of (last_read (trace s))"
    "eval_func_kwargs s = kwargs_of (last_read (trace s))" "evals_follow None (trace s)"
    by (simp_all add: control_inv_def)
  note qa = quiet_events[OF assms(3)] and qb = quiet_events[OF assms(4)]
  have lr: "last_read (trace s') = last_read (trace s)"
    unfolding assms(2) using qa qb by (simp add: last_read_append)
  have ef: "evals_follow None (trace s')"
    unfolding assms(2) using i(2,3) qa qb
    by (cases "last_read (trace s)") (simp_all add: evals_follow_append last_read_append)
  show ?thesis using i lr ef assms(5,6) by (simp add: control_inv_def)
qed

lemma evals_follow_read_other:
  "\<forall>d. x \<noteq> Some (PDict d) \<Longrightarrow> evals_follow r [EvRead x] \<and> last_read [EvRead x] = None"
  by (cases x; cases "the x") auto

lemma control_inv_refresh:
  assumes "control_inv s"
  shows "control_inv (state_of (refresh_control env s))"
proof (cases "\<exists>d. operator env (round_no s) (cfg_file s) = Some (PDict d)")
  case True
  then obtain d where d: "operator env (round_no s) (cfg_file s) = Some (PDict d)" by blast
  from assms have e: "evals_follow None (trace s)" by (simp add: control_inv_def)
  show ?thesis
  proof (cases "cfg_write env (round_no s) (PDict (written_doc (n_cores s) (user_next_x s) d))")
    case None
    with e show ?thesis
      by (simp add: refresh_control_dict[OF d] control_inv_def last_read_append
          evals_follow_append user_ask_of_def kwargs_of_def)
  next
    case (Some ex)
    with e show ?thesis
      by (simp add: refresh_control_dict[OF d] control_inv_def last_read_append
          evals_follow_append user_ask_of_def kwargs_of_def)
  qed
next
  case False
  then have no: "\<forall>d. operator env (round_no s) (cfg_file s) \<noteq> Some (PDict d)" by blast
  from assms evals_follow_read_other[OF no] show ?thesis
    by (simp add: refresh_control_other[OF no] control_inv_def last_read_append
        evals_follow_append)
qed

lemma dump_plot_quiet: "is_dump ev \<or> is_plot ev \<Longrightarrow> \<not> is_eval ev \<and> \<not> is_control ev"
  by (cases ev) simp_all

lemma ask_quiet: "is_ask ev \<Longrightarrow> \<not> is_eval ev \<and> \<not> is_control ev"
  by (cases ev) simp_all

lemma control_inv_after_tell:
  assumes "control_inv s"
  shows "control_inv (state_of (after_tell env r s))"
proof (cases "save_plots env r (save_checkpoint r s)")
  case (Inl p)
  obtain ex s1 where p: "p = (ex, s1)" by (cases p)
  obtain mid where mid: "trace s1 = trace s @ mid" "\<forall>ev \<in> set mid. is_dump ev \<or> is_plot ev"
    using save_stage_Inl[of env r s ex s1] Inl p by auto
  have q: "\<forall>ev \<in> set mid. \<not> is_eval ev \<and> \<not> is_control ev"
    using mid(2) dump_plot_quiet by blast
  have f: "user_ask s1 = user_ask s" "eval_func_kwargs s1 = eval_func_kwargs s"
    using save_stage_Inl_fields[of env r s ex s1] Inl p by simp_all
  have "control_inv s1" using assms mid(1) q f by (rule control_inv_quiet)
  then show ?thesis using Inl p by (simp add: after_tell_def)
next
  case (Inr s1)
  from save_stage_Inr[OF Inr] obtain mid where mid: "trace s1 = trace s @ mid"
     "\<forall>ev \<in> set mid. is_dump ev \<or> is_plot ev"
     "user_ask s1 = user_ask s" "eval_func_kwargs s1 = eval_func_kwargs s"
    by blast
  have q: "\<forall>ev \<in> set mid. \<not> is_eval ev \<and> \<not> is_control ev"
    using mid(2) dump_plot_quiet by blast
  have "control_inv s1" using assms mid(1) q mid(3,4) by (rule control_inv_quiet)
  then have "control_inv (state_of (refresh_control env s1))" by (rule control_inv_refresh)
  then show ?thesis using Inr by (simp add: after_tell_def)
qed

lemma control_inv_round:
  assumes "control_inv s"
  shows "control_inv (state_of (round_body env tol0 s))"
proof (cases rule: round_body_summary[of env tol0 s])
  case (ask_raised ex)
  show ?thesis unfolding ask_raised state_of.simps
    by (rule control_inv_quiet[OF assms, of _ "[EvAsk (n_cores s)]"]) simp_all
next
  case (skipped next_x s1)
  obtain pre where pre: "trace s1 = trace s @ pre" "\<forall>ev \<in> set pre. is_ask ev"
    using propose_asks[OF skipped(1)] by blast
  note pf = propose_fields[OF skipped(1)]
  have q: "\<forall>ev \<in> set (pre @ [EvFromRecords next_x]). \<not> is_eval ev \<and> \<not> is_control ev"
    using pre(2) ask_quiet by auto
  show ?thesis unfolding skipped(2) state_of.simps
    by (rule control_inv_quiet[OF assms _ q]) (simp_all add: pre(1) pf)
next
  case (eval_raised next_x s1 pt ex)
  obtain pre where pre: "trace s1 = trace s @ pre" "\<forall>ev \<in> set pre. is_ask ev"
    using propose_asks[OF eval_raised(1)] by blast
  note pf = propose_fields[OF eval_raised(1)]
  have q: "\<forall>ev \<in> set (pre @ [EvFromRecords next_x]). \<not> is_eval ev \<and> \<not> is_control ev"
    using pre(2) ask_quiet by auto
  have q2: "\<forall>ev \<in> set ([] :: event list). \<not> is_eval ev \<and> \<not> is_control ev" by simp
  show ?thesis unfolding eval_raised(2) state_of.simps
    by (rule control_inv_eval[OF assms _ q q2, of _ pt]) (simp_all add: pre(1) pf)
next
  case (tell_raised next_x s1 pt next_y ex)
  obtain pre where pre: "trace s1 = trace s @ pre" "\<forall>ev \<in> set pre. is_ask ev"
    using propose_asks[OF tell_raised(1)] by blast
  note pf = propose_fields[OF tell_raised(1)]
  have q: "\<forall>ev \<in> set (pre @ [EvFromRecords next_x]). \<not> is_eval ev \<and> \<not> is_control ev"
    using pre(2) ask_quiet by auto
  have q2: "\<forall>ev \<in> set [EvTell next_x next_y]. \<not> is_eval ev \<and> \<not> is_control ev" by simp
  show ?thesis unfolding tell_raised(2) state_of.simps
    by (rule control_inv_eval[OF assms _ q q2, of _ pt]) (simp_all add: pre(1) pf)
next
  case (converged next_x s1 pt next_y e' r)
  obtain pre where pre: "trace s1 = trace s @ pre" "\<forall>ev \<in> set pre. is_ask ev"
    using propose_asks[OF converged(1)] by blast
  note pf = propose_fields[OF converged(1)]
  have q: "\<forall>ev \<in> set (pre @ [EvFromRecords next_x]). \<not> is_eval ev \<and> \<not> is_control ev"
    using pre(2) ask_quiet by auto
  have q2: "\<forall>ev \<in> set [EvTell next_x next_y]. \<not> is_eval ev \<and> \<not> is_control ev" by simp
  show ?thesis unfolding converged(2) state_of.simps
    by (rule control_inv_eval[OF assms _ q q2, of _ pt]) (simp_all add: pre(1) pf)
next
  case (went_on next_x s1 pt next_y e' r)
  obtain pre where pre: "trace s1 = trace s @ pre" "\<forall>ev \<in> set pre. is_ask ev"
    using propose_asks[OF went_on(1)] by blast
  note pf = propose_fields[OF went_on(1)]
  have q: "\<forall>ev \<in> set (pre @ [EvFromRecords next_x]). \<not> is_eval ev \<and> \<not> is_control ev"
    using pre(2) ask_quiet by auto
  have q2: "\<forall>ev \<in> set [EvTell next_x next_y]. \<not> is_eval ev \<and> \<not> is_control ev" by simp
  let ?sF = "s1\<lparr>round_no := round_no s + 1, count := count s + int (length next_x),
               trace := trace s1 @ [EvFromRecords next_x, EvEval pt (eval_func_kwargs s),
                          EvTell next_x next_y],
               sk_optimizer := e', result := Some r\<rparr>"
  have "control_inv ?sF"
    by (rule control_inv_eval[OF assms _ q q2, of _ pt]) (simp_all add: pre(1) pf)
  then show ?thesis unfolding went_on(2) by (rule control_inv_after_tell)
qed

lemma control_inv_loop:
  "control_inv s0 \<Longrightarrow> while_loop k env n tol0 s0 = (st, s) \<Longrightarrow> control_inv s"
proof (induction k arbitrary: s0)
  case 0
  then show ?case by (auto split: if_splits)
next
  case (Suc k)
  show ?case
  proof (cases "count s0 < n")
    case False
    with Suc.prems show ?thesis by simp
  next
    case True
    have r: "control_inv (state_of (round_body env tol0 s0))"
      using Suc.prems(1) by (rule control_inv_round)
    show ?thesis
    proof (cases "round_body env tol0 s0")
      case (Continue s1)
      with True Suc.prems(2) have "while_loop k env n tol0 s1 = (st, s)" by simp
      moreover have "control_inv s1" using r Continue by simp
      ultimately show ?thesis using Suc.IH by blast
    next
      case (Break why s1)
      with True Suc.prems(2) r show ?thesis by simp
    next
      case (Raise ex s1)
      with True Suc.prems(2) r show ?thesis by simp
    qed
  qed
qed

lemma after_tell_engine: "sk_optimizer (state_of (after_tell env r s)) = sk_optimizer s"
  by (auto simp: stage_defs split: sum.splits prod.splits option.splits pyval.splits if_splits)

text \<open>
  The call of the evaluation function in a round: what it is given, and where its
  answer goes.
\<close>

lemma round_calls_eval_func:
  assumes "eval_func_kwargs s = kw"
      and "propose env s = Inr (next_x, s1)"
      and "from_records env next_x (dimension_names env (sk_optimizer s1)) = Inr pt"
  shows "case kw of
       PDict d \<Rightarrow>
         (case eval_func env pt d of
            Inl ex \<Rightarrow> outcome_tag (round_body env tol0 s) = RAISED ex
          | Inr next_y \<Rightarrow>
              (case tell env (sk_optimizer s1) next_x next_y of
                 Inl ex \<Rightarrow> outcome_tag (round_body env tol0 s) = RAISED ex
               | Inr (e', r0) \<Rightarrow>
                   sk_optimizer (state_of (round_body env tol0 s)) = e'
                   \<and> result (state_of (round_body env tol0 s)) =
                       Some (r0\<lparr>res_nit := Some (count s + int (length next_x)),
                                res_success := Some (res_fun r0 < tol0)\<rparr>)))
     | _ \<Rightarrow> outcome_tag (round_body env tol0 s) = RAISED TypeError"
proof -
  note pf = propose_fields[OF assms(2)]
  have kw1: "eval_func_kwargs s1 = kw" using pf assms(1) by simp
  show ?thesis
  proof (cases "\<exists>d. kw = PDict d")
    case False
    then have "call_eval_func env pt kw = Inl TypeError"
      by (cases kw) (simp_all add: call_eval_func_def)
    then have "outcome_tag (round_body env tol0 s) = RAISED TypeError"
      using assms(2,3) kw1 by (simp add: round_body_def Let_def)
    then show ?thesis using False by (cases kw) simp_all
  next
    case True
    then obtain d where d: "kw = PDict d" by blast
    have ce: "call_eval_func env pt (eval_func_kwargs s1) = eval_func env pt d"
      using kw1 d by (simp add: call_eval_func_def)
    show ?thesis
    proof (cases "eval_func env pt d")
      case (Inl ex)
      then have "outcome_tag (round_body env tol0 s) = RAISED ex"
        using assms(2,3) ce by (simp add: round_body_def Let_def)
      then show ?thesis using d Inl by simp
    next
      case (Inr next_y)
      note ev = ce[unfolded Inr]
      show ?thesis
      proof (cases "tell env (sk_optimizer s1) next_x next_y")
        case (Inl ex)
        then have "outcome_tag (round_body env tol0 s) = RAISED ex"
          using assms(2,3) ev by (simp add: round_body_def Let_def)
        then show ?thesis using d Inr Inl by simp
      next
        case tl: (Inr q)
        obtain e' r0 where q: "q = (e', r0)" by (cases q)
        note t = tl[unfolded q]
        have "sk_optimizer (state_of (round_body env tol0 s)) = e'
            \<and> result (state_of (round_body env tol0 s)) =
                Some (r0\<lparr>res_nit := Some (count s + int (length next_x)),
                         res_success := Some (res_fun r0 < tol0)\<rparr>)"
          by (simp add: round_body_told[OF assms(2,3) ev t] after_tell_engine after_tell_result)
        then show ?thesis using d Inr t by simp
      qed
    qed
  qed
qed

text \<open>
  Claim C10. In every run, each call of the evaluation function passes the
  \<^verbatim>\<open>eval_func_kwargs\<close> of the control file read last (the last read that gave a
  dictionary) when that file had a true \<^verbatim>\<open>user_ask\<close>, and no keyword parameter otherwise,
  in particular before the first read; the variables \<^verbatim>\<open>user_ask\<close> and
  \<^verbatim>\<open>eval_func_kwargs\<close> hold these values between rounds. The round that follows a
  reachable state calls the evaluation function on the parameter table with exactly
  these keyword parameters: an exception of that call ends the round, and the values it
  returns are those handed to \<^verbatim>\<open>tell\<close>, whose answer becomes the engine and the result of
  the round; keyword parameters that are not a mapping raise TypeError.
\<close>

theorem eval_kwargs_follow_user_ask:
  assumes "initial_state env a cfg0 pkl0 = Inr s0"
      and "while_loop k env (n_calls a) (tol a) s0 = (st, s)"
  shows "evals_follow None (trace s)
     \<and> user_ask s = user_ask_of (last_read (trace s))
     \<and> eval_func_kwargs s = kwargs_of (last_read (trace s))
     \<and> (\<not> truthy (user_ask s) \<longrightarrow> eval_func_kwargs s = PDict [])
     \<and> kwargs_of None = PDict []
     \<and> (\<forall>d. \<not> truthy (get_default d ''user_ask'' (PBool False)) \<longrightarrow> kwargs_of (Some d) = PDict [])
     \<and> (\<forall>d. truthy (get_default d ''user_ask'' (PBool False)) \<longrightarrow>
           kwargs_of (Some d) = get_default d ''eval_func_kwargs'' (PDict []))
     \<and> (\<forall>next_x s1 pt.
           propose env s = Inr (next_x, s1)
           \<and> from_records env next_x (dimension_names env (sk_optimizer s1)) = Inr pt \<longrightarrow>
           (case kwargs_of (last_read (trace s)) of
              PDict d \<Rightarrow>
                (case eval_func env pt d of
                   Inl ex \<Rightarrow> outcome_tag (round_body env (tol a) s) = RAISED ex
                 | Inr next_y \<Rightarrow>
                     (case tell env (sk_optimizer s1) next_x next_y of
                        Inl ex \<Rightarrow> outcome_tag (round_body env (tol a) s) = RAISED ex
                      | Inr (e', r0) \<Rightarrow>
                          sk_optimizer (state_of (round_body env (tol a) s)) = e'
                          \<and> result (state_of (round_body env (tol a) s)) =
                              Some (r0\<lparr>res_nit := Some (count s + int (length next_x)),
                                       res_success := Some (res_fun r0 < tol a)\<rparr>)))
            | _ \<Rightarrow> outcome_tag (round_body env (tol a) s) = RAISED TypeError))"
proof -
  note i = initial_state_count[OF assms(1)]
  have "control_inv s0"
    using i by (simp add: control_inv_def user_ask_of_def kwargs_of_def)
  then have c: "control_inv s" using assms(2) by (rule control_inv_loop)
  then have f: "evals_follow None (trace s)" "user_ask s = user_ask_of (last_read (trace s))"
     "eval_func_kwargs s = kwargs_of (last_read (trace s))"
    by (simp_all add: control_inv_def)
  have e: "\<not> truthy (user_ask s) \<longrightarrow> eval_func_kwargs s = PDict []"
    unfolding f(2,3) by (auto simp: user_ask_of_def kwargs_of_def split: option.splits)
  have k: "kwargs_of None = PDict []
     \<and> (\<forall>d. \<not> truthy (get_default d ''user_ask'' (PBool False)) \<longrightarrow> kwargs_of (Some d) = PDict [])
     \<and> (\<forall>d. truthy (get_default d ''user_ask'' (PBool False)) \<longrightarrow>
           kwargs_of (Some d) = get_default d ''eval_func_kwargs'' (PDict []))"
    by (simp add: kwargs_of_def)
  have r: "\<forall>next_x s1 pt.
           propose env s = Inr (next_x, s1)
           \<and> from_records env next_x (dimension_names env (sk_optimizer s1)) = Inr pt \<longrightarrow>
           (case kwargs_of (last_read (trace s)) of
              PDict d \<Rightarrow>
                (case eval_func env pt d of
                   Inl ex \<Rightarrow> outcome_tag (round_body env (tol a) s) = RAISED ex
                 | Inr next_y \<Rightarrow>
                     (case tell env (sk_optimizer s1) next_x next_y of
                        Inl ex \<Rightarrow> outcome_tag (round_body env (tol a) s) = RAISED ex
                      | Inr (e', r0) \<Rightarrow>
                          sk_optimizer (state_of (round_body env (tol a) s)) = e'
                          \<and> result (state_of (round_body env (tol a) s)) =
                              Some (r0\<lparr>res_nit := Some (count s + int (length next_x)),
                                       res_success := Some (res_fun r0 < tol a)\<rparr>)))
            | _ \<Rightarrow> outcome_tag (round_body env (tol a) s) = RAISED TypeError)"
    using round_calls_eval_func[OF f(3)] by blast
  show ?thesis using f e k r by blast
qed

theorem eval_kwargs_follow_user_ask_witness:
  "initial_state kw_env demo_args (Some (PDict ask_doc)) None = Inr ask_state
   \<and> filter is_eval (trace (snd (while_loop 2 kw_env (n_calls demo_args) (tol demo_args)
        ask_state))) =
       [EvEval demo_table (PDict []), EvEval demo_table (PDict [(''mode'', PInt 1)])]
   \<and> evals_follow None (trace (snd (while_loop 2 kw_env (n_calls demo_args) (tol demo_args)
        ask_state)))
   \<and> eval_func_kwargs (snd (while_loop 2 kw_env (n_calls demo_args) (tol demo_args)
        ask_state)) = PDict []
   \<and> last_read (trace (snd (while_loop 1 kw_env (n_calls demo_args) (tol demo_args)
        ask_state))) = Some ask_doc
   \<and> eval_func kw_env demo_table [(''mode'', PInt 1)] = Inr [1 / 4, 1 / 4]
   \<and> eval_func kw_env demo_table [] = Inr [1 / 2, 1 / 2]
   \<and> result (state_of (round_body kw_env (tol demo_args)
        (snd (while_loop 1 kw_env (n_calls demo_args) (tol demo_args) ask_state)))) =
       Some (demo_result\<lparr>res_fun := 1 / 4, res_nit := Some 4, res_success := Some False\<rparr>)"
proof -
  let ?W = "while_loop 2 kw_env (n_calls demo_args) (tol demo_args) ask_state"
  let ?V = "while_loop 1 kw_env (n_calls demo_args) (tol demo_args) ask_state"
  have h1: "initial_state kw_env demo_args (Some (PDict ask_doc)) None = Inr ask_state"
    by (simp add: initial_state_def fresh_optimizer_def demo_defs kw_env_def ask_doc_def ask_state_def)
  have h2: "?W = (fst ?W, snd ?W)" by simp
  have h3: "?V = (fst ?V, snd ?V)" by simp
  have ev: "filter is_eval (trace (snd ?W)) =
       [EvEval demo_table (PDict []), EvEval demo_table (PDict [(''mode'', PInt 1)])]"
    by (simp add: numeral_2_eq_2 round_defs demo_defs kw_env_def ask_doc_def ask_state_def control_defs
        convert_user_next_ranges_dyn_def)
  have ua: "\<not> truthy (user_ask (snd ?W))"
    by (simp add: numeral_2_eq_2 round_defs demo_defs kw_env_def ask_doc_def ask_state_def control_defs
        convert_user_next_ranges_dyn_def)
  from eval_kwargs_follow_user_ask[OF h1 h2] ua
  have w: "evals_follow None (trace (snd ?W))" "eval_func_kwargs (snd ?W) = PDict []"
    by blast+
  have lr: "last_read (trace (snd ?V)) = Some ask_doc"
    by (simp add: round_defs demo_defs kw_env_def ask_doc_def ask_state_def control_defs convert_user_next_ranges_dyn_def)
  have kw: "kwargs_of (last_read (trace (snd ?V))) = PDict [(''mode'', PInt 1)]"
    unfolding lr by (simp add: kwargs_of_def get_default_def kw_env_def ask_doc_def ask_state_def)
  have pr: "propose kw_env (snd ?V) =
      Inr (demo_points, (snd ?V)\<lparr>trace := trace (snd ?V) @ [EvAsk (PInt 2)], sk_optimizer := 2\<rparr>)"
    by (simp add: round_defs demo_defs kw_env_def ask_doc_def ask_state_def control_defs convert_user_next_ranges_dyn_def)
  have fr: "from_records kw_env demo_points
       (dimension_names kw_env
          (sk_optimizer ((snd ?V)\<lparr>trace := trace (snd ?V) @ [EvAsk (PInt 2)], sk_optimizer := 2\<rparr>)))
      = Inr demo_table"
    by (simp add: demo_defs kw_env_def ask_doc_def ask_state_def)
  have e1: "eval_func kw_env demo_table [(''mode'', PInt 1)] = Inr [1 / 4, 1 / 4]"
     "eval_func kw_env demo_table [] = Inr [1 / 2, 1 / 2]"
    by (simp_all add: demo_defs kw_env_def ask_doc_def ask_state_def)
  have tl: "tell kw_env
       (sk_optimizer ((snd ?V)\<lparr>trace := trace (snd ?V) @ [EvAsk (PInt 2)], sk_optimizer := 2\<rparr>))
       demo_points [1 / 4, 1 / 4] = Inr (4, demo_result\<lparr>res_fun := 1 / 4\<rparr>)"
    by (simp add: demo_defs kw_env_def ask_doc_def ask_state_def)
  have cn: "count (snd ?V) = 2"
    by (simp add: round_defs demo_defs kw_env_def ask_doc_def ask_state_def control_defs convert_user_next_ranges_dyn_def)
  from eval_kwargs_follow_user_ask[OF h1 h3] pr fr
  have "case kwargs_of (last_read (trace (snd ?V))) of
              PDict d \<Rightarrow>
                (case eval_func kw_env demo_table d of
                   Inl ex \<Rightarrow> outcome_tag (round_body kw_env (tol demo_args) (snd ?V)) = RAISED ex
                 | Inr next_y \<Rightarrow>
                     (case tell kw_env
                         (sk_optimizer ((snd ?V)\<lparr>trace := trace (snd ?V) @ [EvAsk (PInt 2)],
                             sk_optimizer := 2\<rparr>)) demo_points next_y of
                        Inl ex \<Rightarrow> outcome_tag (round_body kw_env (tol demo_args) (snd ?V)) = RAISED ex
                      | Inr (e', r0) \<Rightarrow>
                          sk_optimizer (state_of (round_body kw_env (tol demo_args) (snd ?V))) = e'
                          \<and> result (state_of (round_body kw_env (tol demo_args) (snd ?V))) =
                              Some (r0\<lparr>res_nit := Some (count (snd ?V) + int (length demo_points)),
                                       res_success := Some (res_fun r0 < tol demo_args)\<rparr>)))
            | _ \<Rightarrow> outcome_tag (round_body kw_env (tol demo_args) (snd ?V)) = RAISED TypeError"
    by blast
  then have "result (state_of (round_body kw_env (tol demo_args) (snd ?V))) =
       Some (demo_result\<lparr>res_fun := 1 / 4, res_nit := Some 4, res_success := Some False\<rparr>)"
    unfolding kw pyval.case e1 sum.case tl prod.case cn
    by (simp add: demo_defs)
  then show ?thesis using h1 ev w lr e1 by blast
qed

subsection \<open>Two runs\<close>

lemma proposals_append: "proposals (xs @ ys) = proposals xs @ proposals ys"
  by (induction xs rule: proposals.induct) simp_all

lemma default_valued_written:
  "default_valued n0 d \<Longrightarrow> default_valued n0 (written_doc n0 u d)"
  by (simp add: default_valued_def get_default_def map_of_written_doc)

text \<open>A read that finds no override changes nothing that the proposals depend on.\<close>

lemma refresh_no_override:
  assumes "no_override env n0" and "quiet_state n0 s"
  shows "\<exists>s'. refresh_control env s = Continue s'
     \<and> sk_optimizer s' = sk_optimizer s \<and> round_no s' = round_no s \<and> count s' = count s
     \<and> plots_dir s' = plots_dir s \<and> result s' = result s
     \<and> proposals (trace s') = proposals (trace s) \<and> quiet_state n0 s'"
proof -
  from assms(2) have q: "n_cores s = n0" "\<not> truthy (user_ask s)"
      "eval_func_kwargs s = PDict []" "harmless n0 (cfg_file s)"
    by (simp_all add: quiet_state_def)
  from assms(1) q(4) have h: "harmless n0 (operator env (round_no s) (cfg_file s))"
    unfolding no_override_def by blast
  show ?thesis
  proof (cases "\<exists>d. operator env (round_no s) (cfg_file s) = Some (PDict d)")
    case True
    then obtain d where d: "operator env (round_no s) (cfg_file s) = Some (PDict d)" by blast
    from h have dv: "default_valued n0 d" by (simp add: d)
    then have dw: "default_valued n0 (written_doc n0 (user_next_x s) d)"
      by (rule default_valued_written)
    from dv have f: "get_default d ''n_cores'' n0 = n0"
        "\<not> truthy (get_default d ''user_ask'' (PBool False))"
        "\<not> truthy (get_default d ''kill'' (PBool False))"
      by (simp_all add: default_valued_def)
    show ?thesis
    proof (cases "cfg_write env (round_no s) (PDict (written_doc n0 (user_next_x s) d))")
      case None
      then show ?thesis using q f dw
        by (simp add: refresh_control_dict[OF d] quiet_state_def proposals_append)
    next
      case (Some ex)
      then show ?thesis using q f dv
        by (simp add: refresh_control_dict[OF d] quiet_state_def proposals_append)
    qed
  next
    case False
    then have no: "\<forall>d. operator env (round_no s) (cfg_file s) \<noteq> Some (PDict d)" by blast
    show ?thesis using q h
      by (simp add: refresh_control_other[OF no] quiet_state_def proposals_append)
  qed
qed

lemma save_stage_sim:
  assumes "same_engine env1 env2" and "same_core n0 s1 s2"
  shows "case (save_plots env1 r (save_checkpoint r s1),
               save_plots env2 r (save_checkpoint r s2)) of
           (Inl (ex, t1), Inl (ex', t2)) \<Rightarrow> ex = ex' \<and> same_core n0 t1 t2
         | (Inr t1, Inr t2) \<Rightarrow> same_core n0 t1 t2
         | _ \<Rightarrow> False"
  using assms
  by (auto simp: save_plots_def save_checkpoint_def Let_def same_core_def quiet_state_def
      same_engine_def proposals_append split: option.splits if_splits)

lemma same_core_after_tell:
  assumes "same_engine env1 env2"
      and "no_override env1 n0" and "no_override env2 n0"
      and "same_core n0 s1 s2"
  shows "outcome_tag (after_tell env1 r s1) = outcome_tag (after_tell env2 r s2)
     \<and> same_core n0 (state_of (after_tell env1 r s1)) (state_of (after_tell env2 r s2))"
proof (cases "save_plots env1 r (save_checkpoint r s1)")
  case (Inl p)
  obtain ex t1 where p: "p = (ex, t1)" by (cases p)
  from save_stage_sim[OF assms(1,4), of r] Inl p
  obtain t2 where t2: "save_plots env2 r (save_checkpoint r s2) = Inl (ex, t2)"
      "same_core n0 t1 t2"
    by (auto split: sum.splits prod.splits)
  show ?thesis using Inl p t2 by (simp add: after_tell_def)
next
  case (Inr t1)
  from save_stage_sim[OF assms(1,4), of r] Inr
  obtain t2 where t2: "save_plots env2 r (save_checkpoint r s2) = Inr t2"
      "same_core n0 t1 t2"
    by (auto split: sum.splits prod.splits)
  have q: "quiet_state n0 t1" "quiet_state n0 t2" using t2(2) by (simp_all add: same_core_def)
  from refresh_no_override[OF assms(2) q(1)] obtain u1 where u1:
     "refresh_control env1 t1 = Continue u1"
     "sk_optimizer u1 = sk_optimizer t1" "round_no u1 = round_no t1" "count u1 = count t1"
     "plots_dir u1 = plots_dir t1" "result u1 = result t1"
     "proposals (trace u1) = proposals (trace t1)" "quiet_state n0 u1"
    by blast
  from refresh_no_override[OF assms(3) q(2)] obtain u2 where u2:
     "refresh_control env2 t2 = Continue u2"
     "sk_optimizer u2 = sk_optimizer t2" "round_no u2 = round_no t2" "count u2 = count t2"
     "plots_dir u2 = plots_dir t2" "result u2 = result t2"
     "proposals (trace u2) = proposals (trace t2)" "quiet_state n0 u2"
    by blast
  have "same_core n0 u1 u2" using t2(2) u1 u2 by (simp add: same_core_def)
  then show ?thesis using Inr t2(1) u1(1) u2(1) by (simp add: after_tell_def)
qed

lemma same_core_round:
  assumes "same_engine env1 env2"
      and "no_override env1 n0" and "no_override env2 n0"
      and "same_core n0 s1 s2"
  shows "outcome_tag (round_body env1 tol0 s1) = outcome_tag (round_body env2 tol0 s2)
     \<and> same_core n0 (state_of (round_body env1 tol0 s1)) (state_of (round_body env2 tol0 s2))"
proof -
  from assms(1) have se: "ask env2 = ask env1" "tell env2 = tell env1"
      "from_records env2 = from_records env1" "eval_func env2 = eval_func env1"
      "dimension_names env2 = dimension_names env1"
    by (simp_all add: same_engine_def)
  from assms(4) have f: "sk_optimizer s1 = sk_optimizer s2" "round_no s1 = round_no s2"
      "count s1 = count s2" "plots_dir s1 = plots_dir s2" "result s1 = result s2"
      "proposals (trace s1) = proposals (trace s2)"
      "n_cores s1 = n0" "n_cores s2 = n0" "\<not> truthy (user_ask s1)" "\<not> truthy (user_ask s2)"
      "eval_func_kwargs s1 = PDict []" "eval_func_kwargs s2 = PDict []"
      "harmless n0 (cfg_file s1)" "harmless n0 (cfg_file s2)"
    by (simp_all add: same_core_def quiet_state_def)
  show ?thesis
  proof (cases "ask env1 (sk_optimizer s2) n0")
    case (Inl ex)
    then show ?thesis using f se
      by (simp add: round_body_def propose_def Let_def same_core_def quiet_state_def
          proposals_append)
  next
    case (Inr p)
    obtain xs e' where p: "p = (xs, e')" by (cases p)
    note ak = Inr[unfolded p]
    show ?thesis
    proof (cases "from_records env1 xs (dimension_names env1 e')")
      case (Inl ex)
      then show ?thesis using f se ak
        by (simp add: round_body_def propose_def Let_def same_core_def quiet_state_def
            proposals_append)
    next
      case fr: (Inr pt)
      show ?thesis
      proof (cases "eval_func env1 pt []")
        case (Inl ex)
        then show ?thesis using f se ak fr
          by (simp add: round_body_def propose_def call_eval_func_def Let_def same_core_def
              quiet_state_def proposals_append)
      next
        case ev: (Inr ys)
        show ?thesis
        proof (cases "tell env1 e' xs ys")
          case (Inl ex)
          then show ?thesis using f se ak fr ev
            by (simp add: round_body_def propose_def call_eval_func_def Let_def same_core_def
                quiet_state_def proposals_append)
        next
          case (Inr q)
          obtain e'' r0 where q: "q = (e'', r0)" by (cases q)
          note tl = Inr[unfolded q]
          show ?thesis
          proof (cases "res_fun r0 < tol0")
            case True
            then show ?thesis using f se ak fr ev tl
              by (simp add: round_body_def propose_def call_eval_func_def Let_def same_core_def
                  quiet_state_def proposals_append)
          next
            case False
            let ?r = "r0\<lparr>res_nit := Some (count s2 + int (length xs)), res_success := Some False\<rparr>"
            let ?t1 = "s1\<lparr>round_no := round_no s2 + 1, count := count s2 + int (length xs),
                         trace := trace s1 @ [EvAsk n0, EvFromRecords xs, EvEval pt (PDict []),
                                 EvTell xs ys],
                         sk_optimizer := e'', result := Some ?r\<rparr>"
            let ?t2 = "s2\<lparr>round_no := round_no s2 + 1, count := count s2 + int (length xs),
                         trace := trace s2 @ [EvAsk n0, EvFromRecords xs, EvEval pt (PDict []),
                                 EvTell xs ys],
                         sk_optimizer := e'', result := Some ?r\<rparr>"
            have r1: "round_body env1 tol0 s1 = after_tell env1 ?r ?t1"
              using False f ak fr ev tl
              by (simp add: round_body_def propose_def call_eval_func_def Let_def)
            have r2: "round_body env2 tol0 s2 = after_tell env2 ?r ?t2"
              using False f se ak fr ev tl
              by (simp add: round_body_def propose_def call_eval_func_def Let_def)
            have sc: "same_core n0 ?t1 ?t2" using f
              by (simp add: same_core_def quiet_state_def proposals_append)
            show ?thesis unfolding r1 r2
              using assms(1,2,3) sc by (rule same_core_after_tell)
          qed
        qed
      qed
    qed
  qed
qed

lemma same_core_loop:
  assumes "same_engine env1 env2"
      and "no_override env1 n0" and "no_override env2 n0"
  shows "same_core n0 s1 s2 \<Longrightarrow>
     fst (while_loop k env1 n tol0 s1) = fst (while_loop k env2 n tol0 s2)
     \<and> same_core n0 (snd (while_loop k env1 n tol0 s1)) (snd (while_loop k env2 n tol0 s2))"
proof (induction k arbitrary: s1 s2)
  case 0
  then show ?case by (simp add: same_core_def)
next
  case (Suc k)
  have c: "count s1 = count s2" using Suc.prems by (simp add: same_core_def)
  show ?case
  proof (cases "count s1 < n")
    case False
    then show ?thesis using Suc.prems c by simp
  next
    case True
    note r = same_core_round[OF assms Suc.prems, of tol0]
    show ?thesis
    proof (cases "round_body env1 tol0 s1")
      case (Continue t1)
      with r obtain t2 where t2: "round_body env2 tol0 s2 = Continue t2"
        by (cases "round_body env2 tol0 s2") simp_all
      have "same_core n0 t1 t2" using r Continue t2 by simp
      from Suc.IH[OF this] show ?thesis using True c Continue t2 by simp
    next
      case (Break why t1)
      with r obtain t2 where t2: "round_body env2 tol0 s2 = Break why t2"
        by (cases "round_body env2 tol0 s2") simp_all
      show ?thesis using r True c Break t2 by simp
    next
      case (Raise ex t1)
      with r obtain t2 where t2: "round_body env2 tol0 s2 = Raise ex t2"
        by (cases "round_body env2 tol0 s2") simp_all
      show ?thesis using r True c Raise t2 by simp
    qed
  qed
qed

lemma fold_set_name:
  "(\<forall>i name e. (i, name) \<in> set ps \<longrightarrow> f2 i name e = f1 i name e) \<Longrightarrow>
   fold (\<lambda>(i, name) e. f2 i name e) ps e0 = fold (\<lambda>(i, name) e. f1 i name e) ps e0"
  by (induction ps arbitrary: e0) auto

text \<open>The two runs start from states that agree.\<close>

lemma initial_same_core:
  assumes "same_engine env1 env2" and "same_start env1 env2 a"
      and "initial_state env1 a cfg1 pkl1 = Inr s1"
      and "initial_state env2 a cfg2 pkl2 = Inr s2"
      and "harmless (n_cores s1) cfg1" and "harmless (n_cores s2) cfg2"
  shows "same_core (n_cores s1) s1 s2 \<and> n_cores s2 = n_cores s1"
proof -
  from assms(1) have se: "load env2 = load env1" "Xi env2 = Xi env1"
    by (simp_all add: same_engine_def)
  from assms(2) have
      op: "Optimizer env2 (map snd (opt_dimensions a)) (random_state a) (skopt_kwargs a) =
           Optimizer env1 (map snd (opt_dimensions a)) (random_state a) (skopt_kwargs a)"
    and sn: "\<forall>i name e. (i, name) \<in> set (enumerate 0 (map fst (opt_dimensions a))) \<longrightarrow>
            set_name env2 i name e = set_name env1 i name e"
    and cc: "arg_n_cores a = 0 \<longrightarrow> cpu_count env2 = cpu_count env1"
    by (simp_all add: same_start_def)
  have fo: "fresh_optimizer env2 a = fresh_optimizer env1 a"
    unfolding fresh_optimizer_def op by (rule fold_set_name[OF sn])
  have n: "n_cores s2 = n_cores s1"
    using assms(3,4) cc
    by (auto simp: initial_state_def Let_def split: option.splits sum.splits)
  show ?thesis
    using assms(3,4,5,6) n se fo cc
    by (auto simp: initial_state_def Let_def same_core_def quiet_state_def
        split: option.splits sum.splits)
qed

text \<open>
  Claim C8, as stated, fails. (1) Two runs with the same arguments and
  \<^verbatim>\<open>random_state = None\<close>, on an engine that draws its state from the machine when it is
  given no seed (7 in one run, 8 in the other): the first batches differ. (2) Two runs
  with the same seed 1 and \<^verbatim>\<open>n_cores = 0\<close>, on machines with 3 and 5 cores: the function
  asks for \<^verbatim>\<open>cpu_count() - 1\<close> points, and the first batches have two and four points. In
  both cases the engine's \<^verbatim>\<open>ask\<close> and \<^verbatim>\<open>tell\<close> and the evaluation function are the same
  and there is no control file.
\<close>

theorem seed_determinism_counterexample:
  "random_state unseeded_args = PNone
   \<and> same_engine (seeded_env 7 3) (seeded_env 8 3)
   \<and> initial_state (seeded_env 7 3) unseeded_args None None =
       Inr (demo_state\<lparr>sk_optimizer := 7\<rparr>)
   \<and> initial_state (seeded_env 8 3) unseeded_args None None =
       Inr (demo_state\<lparr>sk_optimizer := 8\<rparr>)
   \<and> proposals (trace (snd (while_loop 1 (seeded_env 7 3) (n_calls unseeded_args)
        (tol unseeded_args) (demo_state\<lparr>sk_optimizer := 7\<rparr>)))) =
       [[[PInt 7, PInt 0], [PInt 7, PInt 1]]]
   \<and> proposals (trace (snd (while_loop 1 (seeded_env 8 3) (n_calls unseeded_args)
        (tol unseeded_args) (demo_state\<lparr>sk_optimizer := 8\<rparr>)))) =
       [[[PInt 8, PInt 0], [PInt 8, PInt 1]]]
   \<and> random_state auto_cores_args = PInt 1
   \<and> arg_n_cores auto_cores_args = 0
   \<and> same_engine (seeded_env 0 3) (seeded_env 0 5)
   \<and> initial_state (seeded_env 0 3) auto_cores_args None None =
       Inr (demo_state\<lparr>sk_optimizer := 1\<rparr>)
   \<and> initial_state (seeded_env 0 5) auto_cores_args None None =
       Inr (demo_state\<lparr>sk_optimizer := 1, n_cores := PInt 4\<rparr>)
   \<and> proposals (trace (snd (while_loop 1 (seeded_env 0 3) (n_calls auto_cores_args)
        (tol auto_cores_args) (demo_state\<lparr>sk_optimizer := 1\<rparr>)))) =
       [[[PInt 1, PInt 0], [PInt 1, PInt 1]]]
   \<and> proposals (trace (snd (while_loop 1 (seeded_env 0 5) (n_calls auto_cores_args)
        (tol auto_cores_args) (demo_state\<lparr>sk_optimizer := 1, n_cores := PInt 4\<rparr>)))) =
       [[[PInt 1, PInt 0], [PInt 1, PInt 1], [PInt 1, PInt 2], [PInt 1, PInt 3]]]"
proof -
  have a: "random_state unseeded_args = PNone" "random_state auto_cores_args = PInt 1"
     "arg_n_cores auto_cores_args = 0"
     "same_engine (seeded_env 7 3) (seeded_env 8 3)"
     "same_engine (seeded_env 0 3) (seeded_env 0 5)"
    by (simp_all add: same_engine_def seeded_env_def demo_defs unseeded_args_def auto_cores_args_def)
  have i: "initial_state (seeded_env 7 3) unseeded_args None None =
       Inr (demo_state\<lparr>sk_optimizer := 7\<rparr>)"
     "initial_state (seeded_env 8 3) unseeded_args None None =
       Inr (demo_state\<lparr>sk_optimizer := 8\<rparr>)"
     "initial_state (seeded_env 0 3) auto_cores_args None None =
       Inr (demo_state\<lparr>sk_optimizer := 1\<rparr>)"
     "initial_state (seeded_env 0 5) auto_cores_args None None =
       Inr (demo_state\<lparr>sk_optimizer := 1, n_cores := PInt 4\<rparr>)"
    by (simp_all add: initial_state_def fresh_optimizer_def seeded_env_def demo_defs unseeded_args_def auto_cores_args_def)
  have p: "proposals (trace (snd (while_loop 1 (seeded_env 7 3) (n_calls unseeded_args)
        (tol unseeded_args) (demo_state\<lparr>sk_optimizer := 7\<rparr>)))) =
       [[[PInt 7, PInt 0], [PInt 7, PInt 1]]]"
     "proposals (trace (snd (while_loop 1 (seeded_env 8 3) (n_calls unseeded_args)
        (tol unseeded_args) (demo_state\<lparr>sk_optimizer := 8\<rparr>)))) =
       [[[PInt 8, PInt 0], [PInt 8, PInt 1]]]"
     "proposals (trace (snd (while_loop 1 (seeded_env 0 3) (n_calls auto_cores_args)
        (tol auto_cores_args) (demo_state\<lparr>sk_optimizer := 1\<rparr>)))) =
       [[[PInt 1, PInt 0], [PInt 1, PInt 1]]]"
     "proposals (trace (snd (while_loop 1 (seeded_env 0 5) (n_calls auto_cores_args)
        (tol auto_cores_args) (demo_state\<lparr>sk_optimizer := 1, n_cores := PInt 4\<rparr>)))) =
       [[[PInt 1, PInt 0], [PInt 1, PInt 1], [PInt 1, PInt 2], [PInt 1, PInt 3]]]"
    by (simp_all add: round_defs seeded_env_def demo_defs unseeded_args_def auto_cores_args_def upt_rec)
  show ?thesis using a i p by simp
qed

text \<open>
  Claim C8, amended. Take two runs with the same arguments (seed, dimensions,
  configuration) in two environments: the constructor gives the same engine for the
  dimensions, seed and keyword arguments of the call, and stores the names the same way;
  \<^verbatim>\<open>ask\<close>, \<^verbatim>\<open>tell\<close>, the evaluation function, the plotting functions and the pickle
  loader are the same functions; the number of cores of the machines is the same when
  \<^verbatim>\<open>n_cores = 0\<close>. The control files, the operators, the fate of the writes and the
  checkpoints may differ, but no operator overrides: the first file is harmless (absent,
  not a dictionary, or default-valued) and every read of a harmless file left by the loop
  finds a harmless file. Then the two runs propose the same batches in the same order
  and end the same way, whatever the number of rounds.
\<close>

theorem no_override_determinism:
  assumes "same_engine env1 env2" and "same_start env1 env2 a"
      and "initial_state env1 a cfg1 pkl1 = Inr s1"
      and "initial_state env2 a cfg2 pkl2 = Inr s2"
      and "harmless (n_cores s1) cfg1" and "harmless (n_cores s2) cfg2"
      and "no_override env1 (n_cores s1)" and "no_override env2 (n_cores s2)"
  shows "proposals (trace (snd (while_loop k env1 (n_calls a) (tol a) s1))) =
         proposals (trace (snd (while_loop k env2 (n_calls a) (tol a) s2)))
     \<and> fst (while_loop k env1 (n_calls a) (tol a) s1) =
         fst (while_loop k env2 (n_calls a) (tol a) s2)"
proof -
  from initial_same_core[OF assms(1,2,3,4,5,6)]
  have sc: "same_core (n_cores s1) s1 s2" and n: "n_cores s2 = n_cores s1" by simp_all
  have no2: "no_override env2 (n_cores s1)" using assms(8) n by simp
  from same_core_loop[OF assms(1,7) no2 sc, of k "n_calls a" "tol a"]
  show ?thesis by (simp add: same_core_def)
qed

theorem no_override_determinism_witness:
  "same_engine demo_env absent_env
   \<and> same_start demo_env absent_env demo_args
   \<and> initial_state demo_env demo_args (Some (PDict [])) None
        = Inr (demo_state\<lparr>cfg_file := Some (PDict [])\<rparr>)
   \<and> initial_state absent_env demo_args None None = Inr demo_state
   \<and> harmless (PInt 2) (Some (PDict []))
   \<and> no_override demo_env (PInt 2)
   \<and> no_override absent_env (PInt 2)
   \<and> proposals (trace (snd (while_loop 2 demo_env (n_calls demo_args) (tol demo_args)
        (demo_state\<lparr>cfg_file := Some (PDict [])\<rparr>)))) = [demo_points, demo_points]
   \<and> proposals (trace (snd (while_loop 2 absent_env (n_calls demo_args) (tol demo_args)
        demo_state))) = [demo_points, demo_points]
   \<and> cfg_file (snd (while_loop 2 demo_env (n_calls demo_args) (tol demo_args)
        (demo_state\<lparr>cfg_file := Some (PDict [])\<rparr>))) =
       Some (PDict [(''n_cores'', PInt 2), (''user_ask'', PBool False),
          (''user_range_prod'', PList []), (''kill'', PBool False)])"
proof -
  let ?s1 = "demo_state\<lparr>cfg_file := Some (PDict [])\<rparr>"
  have h1: "same_engine demo_env absent_env"
    by (simp add: same_engine_def absent_env_def demo_defs)
  have h2: "same_start demo_env absent_env demo_args"
    by (simp add: same_start_def absent_env_def demo_defs)
  have h3: "initial_state demo_env demo_args (Some (PDict [])) None = Inr ?s1"
    by (simp add: initial_state_def fresh_optimizer_def demo_defs absent_env_def)
  have h4: "initial_state absent_env demo_args None None = Inr demo_state"
    by (simp add: initial_state_def fresh_optimizer_def demo_defs absent_env_def)
  have n: "n_cores ?s1 = PInt 2" "n_cores demo_state = PInt 2" by (simp_all add: demo_defs)
  have h5: "harmless (PInt 2) (Some (PDict []))"
    by (simp add: default_valued_def get_default_def)
  have h6: "harmless (PInt 2) None" by simp
  have h7: "no_override demo_env (PInt 2)"
    by (simp add: no_override_def demo_defs)
  have h8: "no_override absent_env (PInt 2)"
    by (simp add: no_override_def absent_env_def demo_defs)
  have p2: "proposals (trace (snd (while_loop 2 absent_env (n_calls demo_args) (tol demo_args)
        demo_state))) = [demo_points, demo_points]"
    by (simp add: numeral_2_eq_2 round_defs demo_defs absent_env_def)
  from no_override_determinism[OF h1 h2 h3 h4 h5[folded n(1)] h6[folded n(2)]
      h7[folded n(1)] h8[folded n(2)], of 2] p2
  have p1: "proposals (trace (snd (while_loop 2 demo_env (n_calls demo_args) (tol demo_args)
        ?s1))) = [demo_points, demo_points]"
    by simp
  have c: "cfg_file (snd (while_loop 2 demo_env (n_calls demo_args) (tol demo_args) ?s1)) =
       Some (PDict [(''n_cores'', PInt 2), (''user_ask'', PBool False),
          (''user_range_prod'', PList []), (''kill'', PBool False)])"
    by (simp add: numeral_2_eq_2 round_defs control_defs demo_defs absent_env_def
        convert_user_next_ranges_dyn_def)
  show ?thesis using h1 h2 h3 h4 h5 h7 h8 p1 p2 c by blast
qed

end
